theory Spec2Isabelle
  imports Main "HOL-Library.Word"
begin

unbundle bit_operations_syntax

section \<open>Basic types of the engine\<close>

text \<open>Modelled from the spec: the engine's basic types and enumerations (squares, files,
  ranks, colours, direction deltas) are declared outside this unit. A bitboard is a 64-bit
  word, bit \<open>s\<close> standing for square \<open>s\<close> (A1 = 0, B1 = 1, ..., H8 = 63). Squares, files
  and ranks are small naturals: \<open>file_of s = s & 7\<close>, \<open>rank_of s = s >> 3\<close>; the relative
  rank and the relative square mirror the board for Black.\<close>

type_synonym Bitboard = "64 word"
type_synonym Square = nat
type_synonym Value = int

datatype Color = WHITE | BLACK

fun color_idx :: "Color \<Rightarrow> nat" where
  "color_idx WHITE = 0"
| "color_idx BLACK = 1"

fun flip_color :: "Color \<Rightarrow> Color" where
  "flip_color WHITE = BLACK"
| "flip_color BLACK = WHITE"

definition PAWN :: nat where "PAWN = 1"

definition FILE_A :: nat where "FILE_A = 0"
definition FILE_B :: nat where "FILE_B = 1"
definition FILE_G :: nat where "FILE_G = 6"
definition FILE_H :: nat where "FILE_H = 7"

definition RANK_1 :: nat where "RANK_1 = 0"
definition RANK_2 :: nat where "RANK_2 = 1"
definition RANK_5 :: nat where "RANK_5 = 4"
definition RANK_8 :: nat where "RANK_8 = 7"

definition SQ_C1 :: Square where "SQ_C1 = 2"
definition SQ_G1 :: Square where "SQ_G1 = 6"
definition SQ_NONE :: Square where "SQ_NONE = 64"

definition DELTA_N :: int where "DELTA_N = 8"
definition DELTA_S :: int where "DELTA_S = - 8"
definition DELTA_NE :: int where "DELTA_NE = 9"
definition DELTA_SW :: int where "DELTA_SW = - 9"
definition DELTA_NW :: int where "DELTA_NW = 7"
definition DELTA_SE :: int where "DELTA_SE = - 7"

definition file_of :: "Square \<Rightarrow> nat" where
  "file_of s = s mod 8"

definition rank_of :: "Square \<Rightarrow> nat" where
  "rank_of s = s div 8"

definition relative_rank :: "Color \<Rightarrow> nat \<Rightarrow> nat" where
  "relative_rank c r = r XOR (color_idx c * 7)"

definition relative_rank_s :: "Color \<Rightarrow> Square \<Rightarrow> nat" where
  "relative_rank_s c s = relative_rank c (rank_of s)"

definition relative_square :: "Color \<Rightarrow> Square \<Rightarrow> Square" where
  "relative_square c s = s XOR (color_idx c * 56)"

text \<open>\<open>s + Up\<close> and \<open>s - Up\<close> on squares; the pawns of a position stand on ranks 2 to 7,
  where the result is a square of the board.\<close>

definition sq_plus :: "Square \<Rightarrow> int \<Rightarrow> Square" where
  "sq_plus s d = nat (int s + d)"

subsection \<open>Paired scores\<close>

text \<open>Modelled from the spec: the type \<open>Score\<close> and \<open>make_score\<close> are declared outside
  this unit. A score is "a paired midgame/endgame value"; sums and differences of scores
  act on each component.\<close>

type_synonym Score = "int \<times> int"

definition make_score :: "int \<Rightarrow> int \<Rightarrow> Score" where
  "make_score m e = (m, e)"

definition mg_value :: "Score \<Rightarrow> Value" where
  "mg_value sc = fst sc"

definition eg_value :: "Score \<Rightarrow> Value" where
  "eg_value sc = snd sc"

definition SCORE_ZERO :: Score where
  "SCORE_ZERO = make_score 0 0"

definition score_add :: "Score \<Rightarrow> Score \<Rightarrow> Score" where
  "score_add a b = (fst a + fst b, snd a + snd b)"

definition score_sub :: "Score \<Rightarrow> Score \<Rightarrow> Score" where
  "score_sub a b = (fst a - fst b, snd a - snd b)"

text \<open>C's integer division truncates towards zero.\<close>

definition tdiv :: "int \<Rightarrow> int \<Rightarrow> int" where
  "tdiv a b = sgn a * sgn b * (\<bar>a\<bar> div \<bar>b\<bar>)"

section \<open>Bitboard primitives\<close>

text \<open>Modelled from the spec: the bitboard helpers (rank/file masks, forward span,
  passed-pawn corridor, adjacent files, pawn attacks, distance rings, directional shift,
  population count, first/last set bit) live in the board collaborator, outside this
  unit. Each mask is the set of squares its description names.\<close>

definition bb_of :: "(Square \<Rightarrow> bool) \<Rightarrow> Bitboard" where
  "bb_of P = horner_sum of_bool 2 (map P [0..<64])"

definition sq_bb :: "Square \<Rightarrow> Bitboard" where
  "sq_bb s = bb_of (\<lambda>t. t = s)"

definition file_bb :: "nat \<Rightarrow> Bitboard" where
  "file_bb f = bb_of (\<lambda>t. file_of t = f)"

definition rank_bb :: "nat \<Rightarrow> Bitboard" where
  "rank_bb r = bb_of (\<lambda>t. rank_of t = r)"

definition rank_bb_s :: "Square \<Rightarrow> Bitboard" where
  "rank_bb_s s = rank_bb (rank_of s)"

definition FileABB :: Bitboard where "FileABB = file_bb FILE_A"
definition FileHBB :: Bitboard where "FileHBB = file_bb FILE_H"

definition DarkSquares :: Bitboard where
  "DarkSquares = 0xAA55AA55AA55AA55"

definition LightSquares :: Bitboard where
  "LightSquares = NOT DarkSquares"

definition adjacent_files_bb :: "nat \<Rightarrow> Bitboard" where
  "adjacent_files_bb f = bb_of (\<lambda>t. file_of t + 1 = f \<or> file_of t = f + 1)"

definition in_front_bb :: "Color \<Rightarrow> nat \<Rightarrow> Bitboard" where
  "in_front_bb c r = bb_of (\<lambda>t. case c of WHITE \<Rightarrow> r < rank_of t | BLACK \<Rightarrow> rank_of t < r)"

definition forward_bb :: "Color \<Rightarrow> Square \<Rightarrow> Bitboard" where
  "forward_bb c s = in_front_bb c (rank_of s) AND file_bb (file_of s)"

definition pawn_attack_span :: "Color \<Rightarrow> Square \<Rightarrow> Bitboard" where
  "pawn_attack_span c s = in_front_bb c (rank_of s) AND adjacent_files_bb (file_of s)"

definition passed_pawn_mask :: "Color \<Rightarrow> Square \<Rightarrow> Bitboard" where
  "passed_pawn_mask c s = forward_bb c s OR pawn_attack_span c s"

definition pawn_attacks_bb :: "Color \<Rightarrow> Square \<Rightarrow> Bitboard" where
  "pawn_attacks_bb c s =
     bb_of (\<lambda>t. (file_of t + 1 = file_of s \<or> file_of t = file_of s + 1) \<and>
                (case c of WHITE \<Rightarrow> rank_of t = rank_of s + 1
                         | BLACK \<Rightarrow> rank_of t + 1 = rank_of s))"

definition distance :: "Square \<Rightarrow> Square \<Rightarrow> nat" where
  "distance s t =
     max (nat \<bar>int (file_of s) - int (file_of t)\<bar>) (nat \<bar>int (rank_of s) - int (rank_of t)\<bar>)"

definition DistanceRingBB :: "Square \<Rightarrow> nat \<Rightarrow> Bitboard" where
  "DistanceRingBB s d = bb_of (\<lambda>t. distance s t = d + 1)"

definition shift_bb :: "int \<Rightarrow> Bitboard \<Rightarrow> Bitboard" where
  "shift_bb D b =
     (if D = DELTA_N then push_bit 8 b
      else if D = DELTA_S then drop_bit 8 b
      else if D = DELTA_NE then push_bit 9 (b AND NOT FileHBB)
      else if D = DELTA_SE then drop_bit 7 (b AND NOT FileHBB)
      else if D = DELTA_NW then push_bit 7 (b AND NOT FileABB)
      else if D = DELTA_SW then drop_bit 9 (b AND NOT FileABB)
      else 0)"

definition popcount :: "'a::len word \<Rightarrow> nat" where
  "popcount w = length (filter (bit w) [0..<LENGTH('a)])"

definition more_than_one :: "Bitboard \<Rightarrow> bool" where
  "more_than_one b = (b AND (b - 1) \<noteq> 0)"

text \<open>Least and most significant set bit; the code calls them on non-empty boards only.\<close>

definition lsb :: "Bitboard \<Rightarrow> Square" where
  "lsb b = (case List.find (bit b) [0..<64] of Some n \<Rightarrow> n | None \<Rightarrow> 0)"

definition msb :: "Bitboard \<Rightarrow> Square" where
  "msb b = (case List.find (bit b) (rev [0..<64]) of Some n \<Rightarrow> n | None \<Rightarrow> 0)"

definition backmost_sq :: "Color \<Rightarrow> Bitboard \<Rightarrow> Square" where
  "backmost_sq c b = (case c of WHITE \<Rightarrow> lsb b | BLACK \<Rightarrow> msb b)"

definition frontmost_sq :: "Color \<Rightarrow> Bitboard \<Rightarrow> Square" where
  "frontmost_sq c b = (case c of WHITE \<Rightarrow> msb b | BLACK \<Rightarrow> lsb b)"

section \<open>Positions and pawn-table entries\<close>

text \<open>Modelled from the spec: the position and its read-only queries (occupancy boards by
  piece type and by colour, castling-rights flags) belong to the board collaborator; only
  the parts this unit reads are kept.\<close>

record Pos =
  byTypeBB :: "nat \<Rightarrow> Bitboard"
  byColorBB :: "Color \<Rightarrow> Bitboard"
  st_castlingRights :: nat

definition pieces_p :: "Pos \<Rightarrow> nat \<Rightarrow> Bitboard" where
  "pieces_p pos p = byTypeBB pos p"

definition pieces_c :: "Pos \<Rightarrow> Color \<Rightarrow> Bitboard" where
  "pieces_c pos c = byColorBB pos c"

definition pieces_cp :: "Pos \<Rightarrow> Color \<Rightarrow> nat \<Rightarrow> Bitboard" where
  "pieces_cp pos c p = byTypeBB pos p AND byColorBB pos c"

text \<open>Castling rights are the flags WHITE_OO = 1, WHITE_OOO = 2, BLACK_OO = 4,
  BLACK_OOO = 8 of the position's state.\<close>

datatype CastlingSide = KING_SIDE | QUEEN_SIDE

definition WHITE_OO :: nat where "WHITE_OO = 1"
definition WHITE_OOO :: nat where "WHITE_OOO = 2"

definition make_castling_right :: "Color \<Rightarrow> CastlingSide \<Rightarrow> nat" where
  "make_castling_right c sd =
     push_bit ((if sd = QUEEN_SIDE then 1 else 0) + 2 * color_idx c) WHITE_OO"

definition can_castle_cr :: "Pos \<Rightarrow> nat \<Rightarrow> nat" where
  "can_castle_cr pos cr = st_castlingRights pos AND cr"

definition can_castle_c :: "Pos \<Rightarrow> Color \<Rightarrow> nat" where
  "can_castle_c pos c = st_castlingRights pos AND push_bit (2 * color_idx c) (WHITE_OO OR WHITE_OOO)"

text \<open>Modelled from the spec: the cache entry is declared outside this unit; its fields are
  those of the specification's data model, per side where the source indexes by colour.\<close>

record PawnEntry =
  key :: "64 word"
  score :: Score
  passedPawns :: "Color \<Rightarrow> Bitboard"
  pawnAttacks :: "Color \<Rightarrow> Bitboard"
  pawnAttacksSpan :: "Color \<Rightarrow> Bitboard"
  kingSquares :: "Color \<Rightarrow> Square"
  castlingRights :: "Color \<Rightarrow> nat"
  semiopenFiles :: "Color \<Rightarrow> 8 word"
  pawnsOnSquares :: "Color \<Rightarrow> Color \<Rightarrow> nat"
  asymmetry :: nat
  openFiles :: nat

section \<open>Evaluation tables\<close>

definition Isolated :: "Score list" where
  "Isolated = [make_score 45 40, make_score 30 27]"

definition Backward :: "Score list" where
  "Backward = [make_score 56 33, make_score 41 19]"

definition Unsupported :: Score where
  "Unsupported = make_score 17 8"

definition Doubled :: Score where
  "Doubled = make_score 18 38"

definition Lever :: "Score list" where
  "Lever = [make_score 0 0, make_score 0 0, make_score 0 0, make_score 0 0,
            make_score 17 16, make_score 33 32, make_score 0 0, make_score 0 0]"

text \<open>Rows shorter than eight entries in the C initialisers are zero-filled.\<close>

definition ShelterWeakness :: "Value list list" where
  "ShelterWeakness =
    [[ 97, 21, 26, 51, 87,  89,  99, 0],
     [120,  0, 28, 76, 88, 103, 104, 0],
     [101,  7, 54, 78, 77,  92, 101, 0],
     [ 80, 11, 44, 68, 87,  90, 119, 0]]"

definition StormDanger :: "Value list list list" where
  "StormDanger =
    [[[ 0,   67,  134, 38, 32, 0, 0, 0],
      [ 0,   57,  139, 37, 22, 0, 0, 0],
      [ 0,   43,  115, 43, 27, 0, 0, 0],
      [ 0,   68,  124, 57, 32, 0, 0, 0]],
     [[20,   43,  100, 56, 20, 0, 0, 0],
      [23,   20,   98, 40, 15, 0, 0, 0],
      [23,   39,  103, 36, 18, 0, 0, 0],
      [28,   19,  108, 42, 26, 0, 0, 0]],
     [[ 0,    0,   75, 14,  2, 0, 0, 0],
      [ 0,    0,  150, 30,  4, 0, 0, 0],
      [ 0,    0,  160, 22,  5, 0, 0, 0],
      [ 0,    0,  166, 24, 13, 0, 0, 0]],
     [[ 0, -283, -281, 57, 31, 0, 0, 0],
      [ 0,   58,  141, 39, 18, 0, 0, 0],
      [ 0,   65,  142, 48, 32, 0, 0, 0],
      [ 0,   60,  126, 51, 19, 0, 0, 0]]]"

definition MaxSafetyBonus :: Value where
  "MaxSafetyBonus = 258"

subsection \<open>The table initializer \<open>pawn_init\<close>\<close>

text \<open>\<open>Connected[opposed][phalanx][apex][rank]\<close>: a table indexed by four numbers, all
  cells zero before \<open>pawn_init\<close> runs (static storage).\<close>

type_synonym ConnectedTable = "nat \<times> nat \<times> nat \<times> nat \<Rightarrow> Score"

definition Connected0 :: ConnectedTable where
  "Connected0 = (\<lambda>_. SCORE_ZERO)"

definition Seed :: "int list" where
  "Seed = [0, 8, 19, 13, 71, 94, 169, 324]"

definition init_cell :: "nat \<Rightarrow> nat \<Rightarrow> nat \<Rightarrow> nat \<Rightarrow> Score" where
  "init_cell opposed phalanx apex r =
     (let v = drop_bit opposed
                (Seed ! r + (if phalanx \<noteq> 0 then tdiv (Seed ! (r + 1) - Seed ! r) 2 else 0));
          v = v + (if apex \<noteq> 0 then tdiv v 2 else 0)
      in make_score v (tdiv (v * 5) 8))"

definition init_indices :: "(nat \<times> nat \<times> nat \<times> nat) list" where
  "init_indices =
     concat (map (\<lambda>opposed.
       concat (map (\<lambda>phalanx.
         concat (map (\<lambda>apex.
           map (\<lambda>r. (opposed, phalanx, apex, r)) [RANK_2 ..< RANK_8])
         [0 ..< 2]))
       [0 ..< 2]))
     [0 ..< 2])"

definition pawn_init :: "ConnectedTable \<Rightarrow> ConnectedTable" where
  "pawn_init tbl =
     fold (\<lambda>(opposed, phalanx, apex, r) t.
             t((opposed, phalanx, apex, r) := init_cell opposed phalanx apex r))
          init_indices tbl"

section \<open>The per-side pawn classifier \<open>pawn_evaluate\<close>\<close>

definition Up :: "Color \<Rightarrow> int" where
  "Up Us = (if Us = WHITE then DELTA_N else DELTA_S)"

definition Right :: "Color \<Rightarrow> int" where
  "Right Us = (if Us = WHITE then DELTA_NE else DELTA_SW)"

definition Left :: "Color \<Rightarrow> int" where
  "Left Us = (if Us = WHITE then DELTA_NW else DELTA_SE)"

definition ourPawns :: "Pos \<Rightarrow> Color \<Rightarrow> Bitboard" where
  "ourPawns pos Us = pieces_cp pos Us PAWN"

definition theirPawns :: "Pos \<Rightarrow> Color \<Rightarrow> Bitboard" where
  "theirPawns pos Us = pieces_p pos PAWN XOR ourPawns pos Us"

subsection \<open>The flags of one pawn on square \<open>s\<close>\<close>

definition opposed :: "Pos \<Rightarrow> Color \<Rightarrow> Square \<Rightarrow> bool" where
  "opposed pos Us s = (theirPawns pos Us AND forward_bb Us s \<noteq> 0)"

definition stoppers :: "Pos \<Rightarrow> Color \<Rightarrow> Square \<Rightarrow> Bitboard" where
  "stoppers pos Us s = theirPawns pos Us AND passed_pawn_mask Us s"

definition lever :: "Pos \<Rightarrow> Color \<Rightarrow> Square \<Rightarrow> bool" where
  "lever pos Us s = (theirPawns pos Us AND pawn_attacks_bb Us s \<noteq> 0)"

definition doubled :: "Pos \<Rightarrow> Color \<Rightarrow> Square \<Rightarrow> Bitboard" where
  "doubled pos Us s = ourPawns pos Us AND sq_bb (sq_plus s (Up Us))"

definition neighbours :: "Pos \<Rightarrow> Color \<Rightarrow> Square \<Rightarrow> Bitboard" where
  "neighbours pos Us s = ourPawns pos Us AND adjacent_files_bb (file_of s)"

definition phalanx :: "Pos \<Rightarrow> Color \<Rightarrow> Square \<Rightarrow> Bitboard" where
  "phalanx pos Us s = neighbours pos Us s AND rank_bb_s s"

definition supported :: "Pos \<Rightarrow> Color \<Rightarrow> Square \<Rightarrow> Bitboard" where
  "supported pos Us s = neighbours pos Us s AND rank_bb_s (sq_plus s (- Up Us))"

definition connected :: "Pos \<Rightarrow> Color \<Rightarrow> Square \<Rightarrow> bool" where
  "connected pos Us s = (supported pos Us s OR phalanx pos Us s \<noteq> 0)"

definition backward :: "Pos \<Rightarrow> Color \<Rightarrow> Square \<Rightarrow> bool" where
  "backward pos Us s =
     (if neighbours pos Us s = 0 \<or> lever pos Us s \<or> RANK_5 \<le> relative_rank_s Us s then False
      else
        let b = rank_bb_s (backmost_sq Us (neighbours pos Us s OR stoppers pos Us s))
        in (b OR shift_bb (Up Us) (b AND adjacent_files_bb (file_of s))) AND stoppers pos Us s \<noteq> 0)"

definition passed :: "Pos \<Rightarrow> Color \<Rightarrow> Square \<Rightarrow> bool" where
  "passed pos Us s = (stoppers pos Us s = 0 \<and> ourPawns pos Us AND forward_bb Us s = 0)"

subsection \<open>Scoring one pawn\<close>

text \<open>The first \<open>if\<close> / \<open>else if\<close> chain of the scoring block: what it subtracts.\<close>

definition weakness_penalty :: "Pos \<Rightarrow> Color \<Rightarrow> Square \<Rightarrow> Score" where
  "weakness_penalty pos Us s =
     (if neighbours pos Us s = 0 then Isolated ! of_bool (opposed pos Us s)
      else if backward pos Us s then Backward ! of_bool (opposed pos Us s)
      else if supported pos Us s = 0 then Unsupported
      else SCORE_ZERO)"

definition score_pawn :: "ConnectedTable \<Rightarrow> Pos \<Rightarrow> Color \<Rightarrow> Square \<Rightarrow> Score \<Rightarrow> Score" where
  "score_pawn ct pos Us s sc =
     (let sc = score_sub sc (weakness_penalty pos Us s);
          sc = (if connected pos Us s
                then score_add sc
                       (ct (of_bool (opposed pos Us s), of_bool (phalanx pos Us s \<noteq> 0),
                            of_bool (more_than_one (supported pos Us s)), relative_rank_s Us s))
                else sc);
          sc = (if doubled pos Us s \<noteq> 0 then score_sub sc Doubled else sc);
          sc = (if lever pos Us s then score_add sc (Lever ! relative_rank_s Us s) else sc)
      in sc)"

subsection \<open>The loop over the side's pawns\<close>

text \<open>Modelled from the spec: \<open>loop_through_pieces\<close> is declared outside this unit; it
  visits "every pawn of the side, on its square", each once.\<close>

definition pawn_squares :: "Pos \<Rightarrow> Color \<Rightarrow> Square list" where
  "pawn_squares pos Us = filter (bit (ourPawns pos Us)) [0..<64]"

definition pawn_step ::
  "ConnectedTable \<Rightarrow> Pos \<Rightarrow> Color \<Rightarrow> Square \<Rightarrow> PawnEntry \<times> Score \<Rightarrow> PawnEntry \<times> Score" where
  "pawn_step ct pos Us s es =
     (let e = fst es; sc = snd es;
          f = file_of s;
          e = e\<lparr>semiopenFiles := (semiopenFiles e)(Us := semiopenFiles e Us AND NOT (push_bit f 1))\<rparr>;
          e = e\<lparr>pawnAttacksSpan := (pawnAttacksSpan e)(Us := pawnAttacksSpan e Us OR pawn_attack_span Us s)\<rparr>;
          e = (if passed pos Us s
               then e\<lparr>passedPawns := (passedPawns e)(Us := passedPawns e Us OR sq_bb s)\<rparr>
               else e)
      in (e, score_pawn ct pos Us s sc))"

definition pawn_reset :: "Pos \<Rightarrow> Color \<Rightarrow> PawnEntry \<Rightarrow> PawnEntry" where
  "pawn_reset pos Us e =
     e\<lparr>passedPawns := (passedPawns e)(Us := 0),
       pawnAttacksSpan := (pawnAttacksSpan e)(Us := 0),
       kingSquares := (kingSquares e)(Us := SQ_NONE),
       semiopenFiles := (semiopenFiles e)(Us := 0xFF),
       pawnAttacks := (pawnAttacks e)
         (Us := shift_bb (Right Us) (ourPawns pos Us) OR shift_bb (Left Us) (ourPawns pos Us)),
       pawnsOnSquares := (pawnsOnSquares e)
         (Us := ((pawnsOnSquares e Us)
                   (BLACK := popcount (ourPawns pos Us AND DarkSquares)))
                   (WHITE := popcount (ourPawns pos Us AND LightSquares)))\<rparr>"

definition pawn_evaluate ::
  "ConnectedTable \<Rightarrow> Pos \<Rightarrow> PawnEntry \<Rightarrow> Color \<Rightarrow> PawnEntry \<times> Score" where
  "pawn_evaluate ct pos e Us =
     fold (pawn_step ct pos Us) (pawn_squares pos Us) (pawn_reset pos Us e, SCORE_ZERO)"

section \<open>The entry filler \<open>pawn_entry_fill\<close>\<close>

definition pawn_entry_fill :: "ConnectedTable \<Rightarrow> Pos \<Rightarrow> PawnEntry \<Rightarrow> 64 word \<Rightarrow> PawnEntry" where
  "pawn_entry_fill ct pos e k =
     (let e = e\<lparr>key := k\<rparr>;
          (e, w) = pawn_evaluate ct pos e WHITE;
          (e, b) = pawn_evaluate ct pos e BLACK;
          e = e\<lparr>score := score_sub w b\<rparr>;
          e = e\<lparr>asymmetry := popcount (semiopenFiles e WHITE XOR semiopenFiles e BLACK)\<rparr>;
          e = e\<lparr>openFiles := popcount (semiopenFiles e WHITE AND semiopenFiles e BLACK)\<rparr>
      in e)"

section \<open>Shelter and storm\<close>

datatype BlockState = NoFriendlyPawn | Unblocked | BlockedByPawn | BlockedByKing

fun block_idx :: "BlockState \<Rightarrow> nat" where
  "block_idx NoFriendlyPawn = 0"
| "block_idx Unblocked = 1"
| "block_idx BlockedByPawn = 2"
| "block_idx BlockedByKing = 3"

definition shelter_ourPawns :: "Pos \<Rightarrow> Square \<Rightarrow> Color \<Rightarrow> Bitboard" where
  "shelter_ourPawns pos ksq Us =
     (pieces_p pos PAWN AND (in_front_bb Us (rank_of ksq) OR rank_bb_s ksq)) AND pieces_c pos Us"

definition shelter_theirPawns :: "Pos \<Rightarrow> Square \<Rightarrow> Color \<Rightarrow> Bitboard" where
  "shelter_theirPawns pos ksq Us =
     (pieces_p pos PAWN AND (in_front_bb Us (rank_of ksq) OR rank_bb_s ksq))
       AND pieces_c pos (flip_color Us)"

definition rkUs :: "Pos \<Rightarrow> Square \<Rightarrow> Color \<Rightarrow> nat \<Rightarrow> nat" where
  "rkUs pos ksq Us f =
     (let b = shelter_ourPawns pos ksq Us AND file_bb f
      in if b \<noteq> 0 then relative_rank_s Us (backmost_sq Us b) else RANK_1)"

definition rkThem :: "Pos \<Rightarrow> Square \<Rightarrow> Color \<Rightarrow> nat \<Rightarrow> nat" where
  "rkThem pos ksq Us f =
     (let b = shelter_theirPawns pos ksq Us AND file_bb f
      in if b \<noteq> 0 then relative_rank_s Us (frontmost_sq (flip_color Us) b) else RANK_1)"

definition block_state :: "Pos \<Rightarrow> Square \<Rightarrow> Color \<Rightarrow> nat \<Rightarrow> BlockState" where
  "block_state pos ksq Us f =
     (let ru = rkUs pos ksq Us f;
          rt = rkThem pos ksq Us f
      in if f = file_of ksq \<and> rt = relative_rank_s Us ksq + 1 then BlockedByKing
         else if ru = RANK_1 then NoFriendlyPawn
         else if rt = ru + 1 then BlockedByPawn
         else Unblocked)"

definition shelter_file :: "Pos \<Rightarrow> Square \<Rightarrow> Color \<Rightarrow> nat \<Rightarrow> Value \<Rightarrow> Value" where
  "shelter_file pos ksq Us f safety =
     (let ru = rkUs pos ksq Us f;
          rt = rkThem pos ksq Us f
      in safety -
           (ShelterWeakness ! min f (FILE_H - f) ! ru
            + StormDanger ! block_idx (block_state pos ksq Us f) ! min f (FILE_H - f) ! rt))"

definition shelter_storm :: "Pos \<Rightarrow> Square \<Rightarrow> Color \<Rightarrow> Value" where
  "shelter_storm pos ksq Us =
     (let center = max FILE_B (min FILE_G (file_of ksq))
      in fold (shelter_file pos ksq Us) [center - 1 ..< center + 2] MaxSafetyBonus)"

section \<open>King safety\<close>

text \<open>The ring scan \<open>while (!(DistanceRingBB[ksq][d++] & pawns))\<close>. Each square has eight
  rings; reading a ninth is outside the table, which the model reports as \<open>None\<close>.\<close>

function ring_scan :: "Square \<Rightarrow> Bitboard \<Rightarrow> nat \<Rightarrow> nat option" where
  "ring_scan ksq pawns d =
     (if 8 \<le> d then None
      else if DistanceRingBB ksq d AND pawns \<noteq> 0 then Some (d + 1)
      else ring_scan ksq pawns (d + 1))"
  by pat_completeness auto
termination
  by (relation "measure (\<lambda>(ksq, pawns, d). 8 - d)") auto

declare ring_scan.simps [simp del]

definition do_king_safety ::
  "PawnEntry \<Rightarrow> Pos \<Rightarrow> Square \<Rightarrow> Color \<Rightarrow> (PawnEntry \<times> Score) option" where
  "do_king_safety pe pos ksq Us =
     (let pe = pe\<lparr>kingSquares := (kingSquares pe)(Us := ksq)\<rparr>;
          pe = pe\<lparr>castlingRights := (castlingRights pe)(Us := can_castle_c pos Us)\<rparr>;
          pawns = pieces_cp pos Us PAWN
      in case (if pawns \<noteq> 0 then ring_scan ksq pawns 0 else Some 0) of
           None \<Rightarrow> None
         | Some minKingPawnDistance \<Rightarrow>
             (let bonus = shelter_storm pos ksq Us;
                  bonus = (if can_castle_cr pos (make_castling_right Us KING_SIDE) \<noteq> 0
                           then max bonus (shelter_storm pos (relative_square Us SQ_G1) Us)
                           else bonus);
                  bonus = (if can_castle_cr pos (make_castling_right Us QUEEN_SIDE) \<noteq> 0
                           then max bonus (shelter_storm pos (relative_square Us SQ_C1) Us)
                           else bonus)
              in Some (pe, make_score bonus (- 16 * int minKingPawnDistance))))"

definition do_king_safety_white :: "PawnEntry \<Rightarrow> Pos \<Rightarrow> Square \<Rightarrow> (PawnEntry \<times> Score) option" where
  "do_king_safety_white pe pos ksq = do_king_safety pe pos ksq WHITE"

definition do_king_safety_black :: "PawnEntry \<Rightarrow> Pos \<Rightarrow> Square \<Rightarrow> (PawnEntry \<times> Score) option" where
  "do_king_safety_black pe pos ksq = do_king_safety pe pos ksq BLACK"

section \<open>Specification-level definitions\<close>

text \<open>The connected-pawn bonus as the specification words it: the seed of the rank, plus
  half of the step to the next seed for a phalanx, halved when opposed, plus half of
  itself when twice supported, every halving truncating.\<close>

definition half :: "int \<Rightarrow> int" where
  "half v = tdiv v 2"

definition spec_connected_value :: "nat \<Rightarrow> bool \<Rightarrow> bool \<Rightarrow> bool \<Rightarrow> int" where
  "spec_connected_value r opp ph twice =
     (let v = Seed ! r;
          v = (if ph then v + half (Seed ! (r + 1) - Seed ! r) else v);
          v = (if opp then half v else v);
          v = (if twice then v + half v else v)
      in v)"

text \<open>A position is well formed for the pawn evaluation when every pawn belongs to exactly
  one colour; then the "enemy pawns" \<open>pieces_p(PAWN) ^ ourPawns\<close> are the pawns of the other
  colour.\<close>

definition pos_ok :: "Pos \<Rightarrow> bool" where
  "pos_ok pos \<longleftrightarrow> byTypeBB pos PAWN AND NOT (byColorBB pos WHITE XOR byColorBB pos BLACK) = 0"

text \<open>Square \<open>t\<close> is ahead of square \<open>s\<close> from the side's point of view; \<open>t\<close> is on a file
  next to the file of \<open>s\<close>; \<open>t\<close> is in the passed-pawn corridor of \<open>s\<close> (same and adjacent
  files, all squares ahead).\<close>

definition ahead :: "Color \<Rightarrow> Square \<Rightarrow> Square \<Rightarrow> bool" where
  "ahead Us s t = (case Us of WHITE \<Rightarrow> rank_of s < rank_of t | BLACK \<Rightarrow> rank_of t < rank_of s)"

definition adjacent_file :: "Square \<Rightarrow> Square \<Rightarrow> bool" where
  "adjacent_file s t \<longleftrightarrow> file_of t + 1 = file_of s \<or> file_of t = file_of s + 1"

definition in_corridor :: "Color \<Rightarrow> Square \<Rightarrow> Square \<Rightarrow> bool" where
  "in_corridor Us s t \<longleftrightarrow> ahead Us s t \<and> (file_of t = file_of s \<or> adjacent_file s t)"

text \<open>The files that hold a pawn of a side, and the number of files holding pawns of both.\<close>

definition pawn_on_file :: "Pos \<Rightarrow> Color \<Rightarrow> nat \<Rightarrow> bool" where
  "pawn_on_file pos c f \<longleftrightarrow> pieces_cp pos c PAWN AND file_bb f \<noteq> 0"

definition files_with_both :: "Pos \<Rightarrow> nat" where
  "files_with_both pos =
     length (filter (\<lambda>f. pawn_on_file pos WHITE f \<and> pawn_on_file pos BLACK f) [0..<8])"

text \<open>The squares of a bitboard, and the rank closest to the side's own back rank among
  them.\<close>

definition squares_of :: "Bitboard \<Rightarrow> Square list" where
  "squares_of b = filter (bit b) [0..<64]"

definition backmost_rank :: "Color \<Rightarrow> Bitboard \<Rightarrow> nat" where
  "backmost_rank Us b =
     (case Us of WHITE \<Rightarrow> Min (set (map rank_of (squares_of b)))
               | BLACK \<Rightarrow> Max (set (map rank_of (squares_of b))))"

text \<open>Rank \<open>r'\<close> is one step further forward than rank \<open>r\<close>.\<close>

definition step_forward :: "Color \<Rightarrow> nat \<Rightarrow> nat \<Rightarrow> bool" where
  "step_forward Us r r' = (case Us of WHITE \<Rightarrow> r' = r + 1 | BLACK \<Rightarrow> r' + 1 = r)"

text \<open>The condition for a backward pawn as the specification words it: an enemy stopper
  on the backmost rank on the pawn's own file, or on an adjacent file one step further
  forward.\<close>

definition claimed_backward_cond :: "Pos \<Rightarrow> Color \<Rightarrow> Square \<Rightarrow> bool" where
  "claimed_backward_cond pos Us s =
     (let r = backmost_rank Us (neighbours pos Us s OR stoppers pos Us s)
      in list_ex (\<lambda>t. (rank_of t = r \<and> file_of t = file_of s)
                     \<or> (adjacent_file s t \<and> step_forward Us r (rank_of t)))
           (squares_of (stoppers pos Us s)))"

text \<open>The same with the stopper on the backmost rank allowed on any of the three files of
  the corridor.\<close>

definition blocked_advance_cond :: "Pos \<Rightarrow> Color \<Rightarrow> Square \<Rightarrow> bool" where
  "blocked_advance_cond pos Us s =
     (let r = backmost_rank Us (neighbours pos Us s OR stoppers pos Us s)
      in list_ex (\<lambda>t. rank_of t = r
                     \<or> (adjacent_file s t \<and> step_forward Us r (rank_of t)))
           (squares_of (stoppers pos Us s)))"

text \<open>Square \<open>t\<close> is on the rank of the king square or ahead of it; the pawns of a legal
  position stand on ranks 2 to 7.\<close>

definition at_or_ahead :: "Color \<Rightarrow> Square \<Rightarrow> Square \<Rightarrow> bool" where
  "at_or_ahead Us ksq t \<longleftrightarrow> rank_of t = rank_of ksq \<or> ahead Us ksq t"

definition pawns_on_board :: "Pos \<Rightarrow> bool" where
  "pawns_on_board pos \<longleftrightarrow> pieces_p pos PAWN AND (rank_bb RANK_1 OR rank_bb RANK_8) = 0"

text \<open>Shelter and storm as the specification words them: the distance of a file from the
  edge, the block state of a file by the first matching case, the three files around the
  clamped king file, and the maximum safety constant minus the sum of the penalties.\<close>

definition edge_distance :: "nat \<Rightarrow> nat" where
  "edge_distance f = min f (FILE_H - f)"

definition own_pawn_ahead_on_file :: "Pos \<Rightarrow> Square \<Rightarrow> Color \<Rightarrow> nat \<Rightarrow> bool" where
  "own_pawn_ahead_on_file pos ksq Us f \<longleftrightarrow> shelter_ourPawns pos ksq Us AND file_bb f \<noteq> 0"

definition spec_block_state :: "Pos \<Rightarrow> Square \<Rightarrow> Color \<Rightarrow> nat \<Rightarrow> BlockState" where
  "spec_block_state pos ksq Us f =
     (if f = file_of ksq \<and> rkThem pos ksq Us f = relative_rank_s Us ksq + 1 then BlockedByKing
      else if \<not> own_pawn_ahead_on_file pos ksq Us f then NoFriendlyPawn
      else if rkThem pos ksq Us f = rkUs pos ksq Us f + 1 then BlockedByPawn
      else Unblocked)"

definition spec_files :: "Square \<Rightarrow> nat list" where
  "spec_files ksq =
     (let c = max FILE_B (min FILE_G (file_of ksq)) in [c - 1, c, c + 1])"

definition spec_file_penalty :: "Pos \<Rightarrow> Square \<Rightarrow> Color \<Rightarrow> nat \<Rightarrow> Value" where
  "spec_file_penalty pos ksq Us f =
     ShelterWeakness ! edge_distance f ! rkUs pos ksq Us f
     + StormDanger ! block_idx (spec_block_state pos ksq Us f) ! edge_distance f
         ! rkThem pos ksq Us f"

definition spec_shelter_storm :: "Pos \<Rightarrow> Square \<Rightarrow> Color \<Rightarrow> Value" where
  "spec_shelter_storm pos ksq Us =
     MaxSafetyBonus - sum_list (map (spec_file_penalty pos ksq Us) (spec_files ksq))"

text \<open>The block state with "no own pawn on the file" read over the whole file.\<close>

definition claimed_block_state :: "Pos \<Rightarrow> Square \<Rightarrow> Color \<Rightarrow> nat \<Rightarrow> BlockState" where
  "claimed_block_state pos ksq Us f =
     (if f = file_of ksq \<and> rkThem pos ksq Us f = relative_rank_s Us ksq + 1 then BlockedByKing
      else if \<not> pawn_on_file pos Us f then NoFriendlyPawn
      else if rkThem pos ksq Us f = rkUs pos ksq Us f + 1 then BlockedByPawn
      else Unblocked)"

text \<open>The terms of a pawn's score that the specification applies independently of the
  isolated / backward / unsupported chain: the doubled penalty and the lever bonus, and
  before them the connected bonus.\<close>

definition doubled_lever_terms :: "Pos \<Rightarrow> Color \<Rightarrow> Square \<Rightarrow> Score \<Rightarrow> Score" where
  "doubled_lever_terms pos Us s sc =
     (let sc = (if doubled pos Us s \<noteq> 0 then score_sub sc Doubled else sc)
      in if lever pos Us s then score_add sc (Lever ! relative_rank_s Us s) else sc)"

definition independent_terms ::
  "ConnectedTable \<Rightarrow> Pos \<Rightarrow> Color \<Rightarrow> Square \<Rightarrow> Score \<Rightarrow> Score" where
  "independent_terms ct pos Us s sc =
     doubled_lever_terms pos Us s
       (if connected pos Us s
        then score_add sc
               (ct (of_bool (opposed pos Us s), of_bool (phalanx pos Us s \<noteq> 0),
                    of_bool (more_than_one (supported pos Us s)), relative_rank_s Us s))
        else sc)"

text \<open>King safety as the specification words it: the distance from the king to the nearest
  pawn of a board, the reported king-to-pawn distance (0 without own pawns), the king
  square after castling, whether a castling right is still available, and the best
  shelter/storm value among the king square and the available post-castle squares.\<close>

definition nearest_pawn_distance :: "Square \<Rightarrow> Bitboard \<Rightarrow> nat" where
  "nearest_pawn_distance ksq pawns = Min (set (map (distance ksq) (squares_of pawns)))"

definition king_pawn_distance :: "Pos \<Rightarrow> Square \<Rightarrow> Color \<Rightarrow> nat" where
  "king_pawn_distance pos ksq Us =
     (if pieces_cp pos Us PAWN = 0 then 0
      else nearest_pawn_distance ksq (pieces_cp pos Us PAWN))"

fun castled_square :: "Color \<Rightarrow> CastlingSide \<Rightarrow> Square" where
  "castled_square WHITE KING_SIDE = 6"
| "castled_square WHITE QUEEN_SIDE = 2"
| "castled_square BLACK KING_SIDE = 62"
| "castled_square BLACK QUEEN_SIDE = 58"

definition castling_legal :: "Pos \<Rightarrow> Color \<Rightarrow> CastlingSide \<Rightarrow> bool" where
  "castling_legal pos Us sd \<longleftrightarrow> can_castle_cr pos (make_castling_right Us sd) \<noteq> 0"

definition best_shelter :: "Pos \<Rightarrow> Square \<Rightarrow> Color \<Rightarrow> Value" where
  "best_shelter pos ksq Us =
     Max (set (shelter_storm pos ksq Us
               # map (\<lambda>sd. shelter_storm pos (castled_square Us sd) Us)
                   (filter (castling_legal pos Us) [KING_SIDE, QUEEN_SIDE])))"

section \<open>Example positions\<close>

text \<open>White pawns on d4 and e4, no black pawns: a phalanx without supporters.\<close>

definition pos_phalanx :: Pos where
  "pos_phalanx = \<lparr>byTypeBB = (\<lambda>p. if p = PAWN then 0x18000000 else 0),
                  byColorBB = (\<lambda>c. case c of WHITE \<Rightarrow> 0x18000000 | BLACK \<Rightarrow> 0),
                  st_castlingRights = 0\<rparr>"

text \<open>White pawns on a2 and a3, no black pawns: doubled and isolated.\<close>

definition pos_doubled :: Pos where
  "pos_doubled = \<lparr>byTypeBB = (\<lambda>p. if p = PAWN then 0x10100 else 0),
                  byColorBB = (\<lambda>c. case c of WHITE \<Rightarrow> 0x10100 | BLACK \<Rightarrow> 0),
                  st_castlingRights = 0\<rparr>"

text \<open>White pawns on e2 and d4, a black pawn on f4.\<close>

definition pos_backward :: Pos where
  "pos_backward = \<lparr>byTypeBB = (\<lambda>p. if p = PAWN then 0x28001000 else 0),
                   byColorBB = (\<lambda>c. case c of WHITE \<Rightarrow> 0x08001000 | BLACK \<Rightarrow> 0x20000000),
                   st_castlingRights = 0\<rparr>"

text \<open>No pawns at all.\<close>

definition pos_empty :: Pos where
  "pos_empty = \<lparr>byTypeBB = (\<lambda>p. 0), byColorBB = (\<lambda>c. 0), st_castlingRights = 0\<rparr>"

text \<open>White pawns on f2, g2, h2 and f4, black pawns on a2 and g5; and the same position
  without the pawns on the second rank.\<close>

definition pos_shelter_a :: Pos where
  "pos_shelter_a = \<lparr>byTypeBB = (\<lambda>p. if p = PAWN then 0x402000E100 else 0),
                    byColorBB = (\<lambda>c. case c of WHITE \<Rightarrow> 0x2000E000 | BLACK \<Rightarrow> 0x4000000100),
                    st_castlingRights = 0\<rparr>"

definition pos_shelter_b :: Pos where
  "pos_shelter_b = \<lparr>byTypeBB = (\<lambda>p. if p = PAWN then 0x4020000000 else 0),
                    byColorBB = (\<lambda>c. case c of WHITE \<Rightarrow> 0x20000000 | BLACK \<Rightarrow> 0x4000000000),
                    st_castlingRights = 0\<rparr>"

text \<open>White pawns on a2, b2, c2, f2, g2 and h2; White may castle on both sides.\<close>

definition pos_castle :: Pos where
  "pos_castle = \<lparr>byTypeBB = (\<lambda>p. if p = PAWN then 0xE700 else 0),
                 byColorBB = (\<lambda>c. case c of WHITE \<Rightarrow> 0xE700 | BLACK \<Rightarrow> 0),
                 st_castlingRights = 3\<rparr>"

text \<open>A zeroed pawn-table entry.\<close>

definition entry0 :: PawnEntry where
  "entry0 = \<lparr>key = 0, score = SCORE_ZERO, passedPawns = (\<lambda>_. 0), pawnAttacks = (\<lambda>_. 0),
             pawnAttacksSpan = (\<lambda>_. 0), kingSquares = (\<lambda>_. 0), castlingRights = (\<lambda>_. 0),
             semiopenFiles = (\<lambda>_. 0), pawnsOnSquares = (\<lambda>_ _. 0), asymmetry = 0, openFiles = 0\<rparr>"

section \<open>Facts about the bitboard primitives\<close>

lemma bit_bb_of: "bit (bb_of P) n \<longleftrightarrow> n < 64 \<and> P n"
  by (auto simp add: bb_of_def bit_horner_sum_bit_word_iff)

lemma word_eq_0_iff: "(w :: 'a::len word) = 0 \<longleftrightarrow> (\<forall>n. \<not> bit w n)"
proof
  assume "\<forall>n. \<not> bit w n"
  then show "w = 0" by (intro bit_word_eqI) simp
qed simp

lemma bit_bb_lt: "bit (b :: Bitboard) n \<Longrightarrow> n < 64"
  using bit_imp_le_length[of b n] by simp

lemma bit_adjacent_files_bb:
  "bit (adjacent_files_bb f) n \<longleftrightarrow> n < 64 \<and> (file_of n + 1 = f \<or> file_of n = f + 1)"
  by (simp add: adjacent_files_bb_def bit_bb_of)

lemma bit_file_bb: "bit (file_bb f) n \<longleftrightarrow> n < 64 \<and> file_of n = f"
  by (simp add: file_bb_def bit_bb_of)

lemma bit_rank_bb: "bit (rank_bb r) n \<longleftrightarrow> n < 64 \<and> rank_of n = r"
  by (simp add: rank_bb_def bit_bb_of)

lemma bit_sq_bb: "bit (sq_bb s) n \<longleftrightarrow> n < 64 \<and> n = s"
  by (simp add: sq_bb_def bit_bb_of)

lemma bit_in_front_bb: "bit (in_front_bb c r) n \<longleftrightarrow>
    n < 64 \<and> (case c of WHITE \<Rightarrow> r < rank_of n | BLACK \<Rightarrow> rank_of n < r)"
  by (simp add: in_front_bb_def bit_bb_of)

lemma bit_forward_bb: "bit (forward_bb c s) n \<longleftrightarrow> n < 64 \<and> ahead c s n \<and> file_of n = file_of s"
  by (auto simp: forward_bb_def bit_and_iff bit_in_front_bb bit_file_bb ahead_def)

lemma bit_passed_pawn_mask: "bit (passed_pawn_mask c s) n \<longleftrightarrow> n < 64 \<and> in_corridor c s n"
  by (auto simp: passed_pawn_mask_def pawn_attack_span_def bit_or_iff bit_and_iff bit_forward_bb
        bit_in_front_bb bit_adjacent_files_bb in_corridor_def ahead_def adjacent_file_def)

subsection \<open>Evaluating the primitives on concrete boards\<close>

lemmas upt_eval = upt_rec[of _ "numeral _"] upt_rec[of "0::nat"]

lemmas mask_defs = passed_pawn_mask_def forward_bb_def pawn_attack_span_def in_front_bb_def
  file_bb_def rank_bb_def rank_bb_s_def adjacent_files_bb_def sq_bb_def pawn_attacks_bb_def
  bb_of_def upt_eval file_of_def rank_of_def

lemmas flag_defs = neighbours_def backward_def supported_def connected_def phalanx_def
  lever_def stoppers_def opposed_def doubled_def passed_def ourPawns_def theirPawns_def
  pieces_cp_def pieces_p_def pieces_c_def PAWN_def relative_rank_s_def relative_rank_def
  RANK_5_def backmost_sq_def frontmost_sq_def lsb_def msb_def shift_bb_def Up_def
  DELTA_N_def DELTA_S_def sq_plus_def

section \<open>The connected-pawn bonus table\<close>

lemma fold_upd_lookup:
  "fold (\<lambda>k t. t(k := g k)) ks t k' = (if k' \<in> set ks then g k' else t k')"
  by (induction ks arbitrary: t) auto

lemma pawn_init_lookup:
  "pawn_init tbl (a, b, c, r) =
     (if (a, b, c, r) \<in> set init_indices then init_cell a b c r else tbl (a, b, c, r))"
proof -
  have "(\<lambda>(opposed, phalanx, apex, r) t.
             t((opposed, phalanx, apex, r) := init_cell opposed phalanx apex r))
        = (\<lambda>k t. t(k := (\<lambda>(a, b, c, r). init_cell a b c r) k))"
    by (auto simp: fun_eq_iff)
  then show ?thesis
    unfolding pawn_init_def by (simp add: fold_upd_lookup)
qed

lemma set_init_indices:
  "(a, b, c, r) \<in> set init_indices \<longleftrightarrow> a < 2 \<and> b < 2 \<and> c < 2 \<and> 1 \<le> r \<and> r < 7"
proof -
  have "set init_indices = {0..<2} \<times> {0..<2} \<times> {0..<2} \<times> {1..<7}"
    unfolding init_indices_def RANK_2_def RANK_8_def by force
  then show ?thesis by auto
qed

lemma init_cell_spec:
  assumes "1 \<le> r" "r \<le> 6"
  shows "init_cell (of_bool opp) (of_bool ph) (of_bool twice) r =
           make_score (spec_connected_value r opp ph twice)
                      (tdiv (spec_connected_value r opp ph twice * 5) 8)"
proof -
  have "r = 1 \<or> r = 2 \<or> r = 3 \<or> r = 4 \<or> r = 5 \<or> r = 6"
    using assms by arith
  then show ?thesis
    by (elim disjE; cases opp; cases ph; cases twice)
       (simp_all add: init_cell_def spec_connected_value_def half_def tdiv_def Seed_def
          Let_def drop_bit_eq_div)
qed

text \<open>Claim C8. After \<open>pawn_init\<close> has run on the zero table, the cell of rank \<open>r\<close> in
  1..6 and of any combination of the opposed, phalanx and twice-supported flags holds the
  value \<open>v\<close> the specification describes as its midgame component and \<open>v * 5 / 8\<close>,
  truncated, as its endgame component.\<close>

theorem connected_table_cells:
  assumes "1 \<le> r" "r \<le> 6"
  shows "mg_value (pawn_init Connected0 (of_bool opp, of_bool ph, of_bool twice, r))
           = spec_connected_value r opp ph twice
       \<and> eg_value (pawn_init Connected0 (of_bool opp, of_bool ph, of_bool twice, r))
           = tdiv (spec_connected_value r opp ph twice * 5) 8"
  using assms
  by (simp add: pawn_init_lookup set_init_indices init_cell_spec mg_value_def eg_value_def
        make_score_def)

theorem connected_table_cells_witness:
  "(1::nat) \<le> 3 \<and> (3::nat) \<le> 6 \<and>
   mg_value (pawn_init Connected0 (of_bool True, of_bool True, of_bool True, 3)) = 31 \<and>
   eg_value (pawn_init Connected0 (of_bool True, of_bool True, of_bool True, 3)) = 19"
  using connected_table_cells[of 3 True True True]
  by (simp add: spec_connected_value_def half_def tdiv_def Seed_def)

section \<open>The scoring chain of one pawn\<close>

lemma neighbours_empty_iff:
  "neighbours pos Us s = 0 \<longleftrightarrow>
     (\<forall>t. bit (ourPawns pos Us) t \<longrightarrow> \<not> (file_of t + 1 = file_of s \<or> file_of t = file_of s + 1))"
  by (auto simp: neighbours_def word_eq_0_iff bit_and_iff bit_adjacent_files_bb dest: bit_bb_lt)

lemma Unsupported_neq_zero: "Unsupported \<noteq> SCORE_ZERO"
  by (simp add: Unsupported_def SCORE_ZERO_def make_score_def)

lemma phalanx_flags:
  "neighbours pos_phalanx WHITE 28 = 0x8000000"
  "backward pos_phalanx WHITE 28 = False"
  "supported pos_phalanx WHITE 28 = 0"
  "connected pos_phalanx WHITE 28 = True"
  by (simp_all add: pos_phalanx_def flag_defs mask_defs)

lemma doubled_flags:
  "neighbours pos_doubled WHITE 8 = 0"
  "doubled pos_doubled WHITE 8 = 0x10000"
  "opposed pos_doubled WHITE 8 = False"
  by (simp_all add: pos_doubled_def flag_defs mask_defs)

text \<open>The side's score is the fold of \<open>score_pawn\<close> over the side's pawns, and the score
  of one pawn is its independent terms minus what the isolated / backward / unsupported
  chain subtracts.\<close>

lemma snd_fold_pawn_step:
  "snd (fold (pawn_step ct pos Us) xs es) = fold (score_pawn ct pos Us) xs (snd es)"
  by (induction xs arbitrary: es) (simp_all add: pawn_step_def Let_def)

lemma snd_pawn_evaluate:
  "snd (pawn_evaluate ct pos e Us) = fold (score_pawn ct pos Us) (pawn_squares pos Us) SCORE_ZERO"
  by (simp add: pawn_evaluate_def snd_fold_pawn_step)

lemma doubled_lever_terms_sub:
  "doubled_lever_terms pos Us s (score_sub sc p) = score_sub (doubled_lever_terms pos Us s sc) p"
  by (simp add: doubled_lever_terms_def score_sub_def score_add_def Let_def)

lemma independent_terms_sub:
  "independent_terms ct pos Us s (score_sub sc p) = score_sub (independent_terms ct pos Us s sc) p"
  by (simp add: independent_terms_def doubled_lever_terms_def score_sub_def score_add_def Let_def)

lemma score_sub_zero: "score_sub sc SCORE_ZERO = sc"
  by (simp add: score_sub_def SCORE_ZERO_def make_score_def)

lemma score_pawn_terms:
  "score_pawn ct pos Us s sc
     = score_sub (independent_terms ct pos Us s sc) (weakness_penalty pos Us s)"
  by (simp add: score_pawn_def independent_terms_def doubled_lever_terms_def Let_def
        score_sub_def score_add_def)

lemma score_sub_neq: "p \<noteq> SCORE_ZERO \<Longrightarrow> score_sub sc p \<noteq> sc"
  by (cases sc; cases p) (auto simp: score_sub_def SCORE_ZERO_def make_score_def)

lemma phalanx_terms:
  "independent_terms (pawn_init Connected0) pos_phalanx WHITE 28 SCORE_ZERO = make_score 42 26"
  by (simp add: independent_terms_def doubled_lever_terms_def pos_phalanx_def flag_defs mask_defs
        more_than_one_def pawn_init_lookup set_init_indices init_cell_def Seed_def tdiv_def
        score_add_def score_sub_def SCORE_ZERO_def make_score_def Let_def drop_bit_eq_div)

lemma phalanx_score:
  "score_pawn (pawn_init Connected0) pos_phalanx WHITE 28 SCORE_ZERO = make_score 25 18"
  by (simp add: score_pawn_def weakness_penalty_def pos_phalanx_def flag_defs mask_defs
        more_than_one_def pawn_init_lookup set_init_indices init_cell_def Seed_def tdiv_def
        score_add_def score_sub_def SCORE_ZERO_def make_score_def Let_def drop_bit_eq_div
        Unsupported_def)

lemma doubled_terms:
  "doubled_lever_terms pos_doubled WHITE 8 SCORE_ZERO = make_score (- 18) (- 38)"
  by (simp add: doubled_lever_terms_def pos_doubled_def flag_defs mask_defs Doubled_def
        score_sub_def SCORE_ZERO_def make_score_def Let_def)

lemma doubled_score:
  "score_pawn (pawn_init Connected0) pos_doubled WHITE 8 SCORE_ZERO = make_score (- 63) (- 78)"
  by (simp add: score_pawn_def weakness_penalty_def pos_doubled_def flag_defs mask_defs
        Isolated_def Doubled_def score_sub_def SCORE_ZERO_def make_score_def Let_def)

text \<open>Claim C1, as stated: for a pawn with a neighbour that is not backward, the
  Unsupported penalty is subtracted from the score exactly when \<open>connected\<close> is false. It
  fails for the white pawn on e4 of \<^const>\<open>pos_phalanx\<close>: the pawn is connected (phalanx
  with d4), its independent terms are the connected bonus (42, 26), and its score is
  (25, 18): the penalty (17, 8) is subtracted all the same.\<close>

theorem unsupported_connected_counterexample:
  "neighbours pos_phalanx WHITE 28 \<noteq> 0 \<and> \<not> backward pos_phalanx WHITE 28 \<and>
   connected pos_phalanx WHITE 28 \<and> weakness_penalty pos_phalanx WHITE 28 = Unsupported \<and>
   independent_terms (pawn_init Connected0) pos_phalanx WHITE 28 SCORE_ZERO = make_score 42 26 \<and>
   score_pawn (pawn_init Connected0) pos_phalanx WHITE 28 SCORE_ZERO = make_score 25 18"
  by (simp add: phalanx_flags weakness_penalty_def phalanx_terms phalanx_score)

text \<open>Claim C1, amended: for a pawn with a neighbour that is not backward, the score of
  the pawn is its independent terms minus the Unsupported penalty when the pawn has no
  direct supporter one rank behind (\<open>supported\<close> is empty), and its independent terms alone
  otherwise, whatever its phalanx neighbours; the two differ; in particular the penalty is
  subtracted whenever \<open>connected\<close> is false. The side's score is the fold of these pawn
  scores over the side's pawns.\<close>

theorem unsupported_iff_no_supporter:
  assumes "neighbours pos Us s \<noteq> 0" and "\<not> backward pos Us s"
  shows "score_pawn ct pos Us s sc
           = score_sub (independent_terms ct pos Us s sc)
               (if supported pos Us s = 0 then Unsupported else SCORE_ZERO)
       \<and> score_sub (independent_terms ct pos Us s sc) Unsupported
           \<noteq> score_sub (independent_terms ct pos Us s sc) SCORE_ZERO
       \<and> (\<not> connected pos Us s \<longrightarrow> supported pos Us s = 0)
       \<and> snd (pawn_evaluate ct pos e Us)
           = fold (score_pawn ct pos Us) (pawn_squares pos Us) SCORE_ZERO
       \<and> (weakness_penalty pos Us s = Unsupported \<longleftrightarrow> supported pos Us s = 0)
       \<and> (\<not> connected pos Us s \<longrightarrow> weakness_penalty pos Us s = Unsupported)"
proof (intro conjI)
  show "score_pawn ct pos Us s sc
           = score_sub (independent_terms ct pos Us s sc)
               (if supported pos Us s = 0 then Unsupported else SCORE_ZERO)"
    using assms by (simp add: score_pawn_terms weakness_penalty_def)
  show "score_sub (independent_terms ct pos Us s sc) Unsupported
           \<noteq> score_sub (independent_terms ct pos Us s sc) SCORE_ZERO"
    using score_sub_neq[OF Unsupported_neq_zero] by (simp add: score_sub_zero)
  show "snd (pawn_evaluate ct pos e Us)
           = fold (score_pawn ct pos Us) (pawn_squares pos Us) SCORE_ZERO"
    by (rule snd_pawn_evaluate)
qed (use assms Unsupported_neq_zero in \<open>auto simp: weakness_penalty_def connected_def or_eq_0_iff\<close>)

theorem unsupported_iff_no_supporter_witness:
  "neighbours pos_phalanx WHITE 28 \<noteq> 0 \<and> \<not> backward pos_phalanx WHITE 28 \<and>
   supported pos_phalanx WHITE 28 = 0 \<and>
   score_pawn (pawn_init Connected0) pos_phalanx WHITE 28 SCORE_ZERO
     = score_sub (make_score 42 26) Unsupported"
  using unsupported_iff_no_supporter[of pos_phalanx WHITE 28 "pawn_init Connected0" SCORE_ZERO]
  by (simp add: phalanx_flags phalanx_terms)

text \<open>Claim C3, as stated: a pawn with no pawn of its colour on an adjacent file is never
  doubled. It fails for the white pawn on a2 of \<^const>\<open>pos_doubled\<close>, which has no
  neighbour and has the a3 pawn directly ahead: its score is minus the Isolated penalty,
  minus the Doubled penalty.\<close>

theorem isolated_not_doubled_counterexample:
  "neighbours pos_doubled WHITE 8 = 0 \<and> doubled pos_doubled WHITE 8 \<noteq> 0 \<and>
   score_pawn (pawn_init Connected0) pos_doubled WHITE 8 SCORE_ZERO
     = score_sub (score_sub SCORE_ZERO (Isolated ! 0)) Doubled"
  using doubled_score
  by (simp add: doubled_flags Isolated_def Doubled_def score_sub_def SCORE_ZERO_def
        make_score_def)

text \<open>Claim C3, amended: for a pawn with no pawn of its colour on either adjacent file,
  the score of the pawn is its doubled and lever terms minus \<open>Isolated[opposed]\<close>, and the
  pawn is neither backward nor connected. (It can be doubled.) The side's score is the
  fold of these pawn scores over the side's pawns.\<close>

theorem isolated_pawn:
  assumes "\<forall>t. bit (ourPawns pos Us) t \<longrightarrow>
             \<not> (file_of t + 1 = file_of s \<or> file_of t = file_of s + 1)"
  shows "score_pawn ct pos Us s sc
           = score_sub (doubled_lever_terms pos Us s sc) (Isolated ! of_bool (opposed pos Us s))
       \<and> \<not> backward pos Us s \<and> \<not> connected pos Us s
       \<and> snd (pawn_evaluate ct pos e Us)
           = fold (score_pawn ct pos Us) (pawn_squares pos Us) SCORE_ZERO
       \<and> weakness_penalty pos Us s = Isolated ! of_bool (opposed pos Us s)"
proof -
  have n: "neighbours pos Us s = 0"
    using assms by (simp add: neighbours_empty_iff)
  then have c: "\<not> connected pos Us s"
    by (simp add: connected_def phalanx_def supported_def)
  have w: "weakness_penalty pos Us s = Isolated ! of_bool (opposed pos Us s)"
    using n by (simp add: weakness_penalty_def)
  have "score_pawn ct pos Us s sc
           = score_sub (doubled_lever_terms pos Us s sc) (Isolated ! of_bool (opposed pos Us s))"
    using c by (simp add: score_pawn_terms w independent_terms_def)
  moreover have "\<not> backward pos Us s" using n by (simp add: backward_def)
  ultimately show ?thesis using c w by (simp add: snd_pawn_evaluate)
qed

theorem isolated_pawn_witness:
  "neighbours pos_doubled WHITE 8 = 0 \<and>
   score_pawn (pawn_init Connected0) pos_doubled WHITE 8 SCORE_ZERO
     = score_sub (make_score (- 18) (- 38)) (make_score 45 40) \<and>
   \<not> backward pos_doubled WHITE 8 \<and> \<not> connected pos_doubled WHITE 8"
  using isolated_pawn[of pos_doubled WHITE 8 "pawn_init Connected0" SCORE_ZERO]
    neighbours_empty_iff[of pos_doubled WHITE 8]
  by (simp add: doubled_flags doubled_terms Isolated_def)

section \<open>The loop over the pawns: passed pawns\<close>

lemma theirPawns_ok:
  assumes "pos_ok pos"
  shows "theirPawns pos Us = pieces_cp pos (flip_color Us) PAWN"
proof (rule bit_word_eqI)
  fix n
  have "\<not> bit (byTypeBB pos PAWN AND NOT (byColorBB pos WHITE XOR byColorBB pos BLACK)) n"
    using assms by (simp add: pos_ok_def)
  then have "bit (byTypeBB pos PAWN) n \<Longrightarrow> bit (byColorBB pos WHITE) n \<noteq> bit (byColorBB pos BLACK) n"
    by (auto simp: bit_and_iff bit_not_iff bit_xor_iff dest: bit_bb_lt)
  then show "bit (theirPawns pos Us) n = bit (pieces_cp pos (flip_color Us) PAWN) n"
    by (cases Us) (auto simp: theirPawns_def ourPawns_def pieces_cp_def pieces_p_def bit_and_iff bit_xor_iff)
qed

lemma passed_iff:
  "passed pos Us s \<longleftrightarrow>
     (\<forall>t. bit (theirPawns pos Us) t \<longrightarrow> \<not> in_corridor Us s t) \<and>
     (\<forall>t. bit (ourPawns pos Us) t \<longrightarrow> \<not> (ahead Us s t \<and> file_of t = file_of s))"
  by (auto simp: passed_def stoppers_def word_eq_0_iff bit_and_iff bit_passed_pawn_mask
        bit_forward_bb dest: bit_bb_lt)

lemma passedPawns_pawn_step:
  "passedPawns (fst (pawn_step ct pos Us s es)) c =
     (if c = Us \<and> passed pos Us s then passedPawns (fst es) Us OR sq_bb s
      else passedPawns (fst es) c)"
  by (simp add: pawn_step_def Let_def)

lemma semiopenFiles_pawn_step:
  "semiopenFiles (fst (pawn_step ct pos Us s es)) c =
     (if c = Us then semiopenFiles (fst es) Us AND NOT (push_bit (file_of s) 1)
      else semiopenFiles (fst es) c)"
  by (simp add: pawn_step_def Let_def)

lemma passedPawns_fold:
  "bit (passedPawns (fst (fold (pawn_step ct pos Us) xs es)) Us) n \<longleftrightarrow>
     bit (passedPawns (fst es) Us) n \<or> (n \<in> set xs \<and> n < 64 \<and> passed pos Us n)"
  by (induction xs arbitrary: es) (auto simp: passedPawns_pawn_step bit_or_iff bit_sq_bb)

lemma set_pawn_squares: "set (pawn_squares pos Us) = {s. bit (ourPawns pos Us) s}"
  by (auto simp: pawn_squares_def dest: bit_bb_lt)

lemma passedPawns_pawn_evaluate:
  "bit (passedPawns (fst (pawn_evaluate ct pos e Us)) Us) n \<longleftrightarrow>
     bit (ourPawns pos Us) n \<and> passed pos Us n"
  by (auto simp: pawn_evaluate_def passedPawns_fold set_pawn_squares pawn_reset_def dest: bit_bb_lt)

lemma doubled_passed:
  "pos_ok pos_doubled"
  "bit (pieces_cp pos_doubled WHITE PAWN) 8"
  "pieces_cp pos_doubled BLACK PAWN = 0"
  "\<not> bit (passedPawns (fst (pawn_evaluate Connected0 pos_doubled entry0 WHITE)) WHITE) 8"
  by (simp_all add: passedPawns_pawn_evaluate pos_ok_def pos_doubled_def flag_defs mask_defs)

text \<open>Claim C7. In a well-formed position, the square of a pawn of the side is in the
  side's \<open>passedPawns\<close> after \<open>pawn_evaluate\<close> exactly when no enemy pawn stands in its
  passed-pawn corridor and no pawn of its own side stands ahead of it on its file. The
  witness is the a2 pawn of \<^const>\<open>pos_doubled\<close>: no enemy pawn exists, the a3 pawn blocks
  it, and it is not flagged.\<close>

theorem passed_flag:
  assumes "pos_ok pos" and "bit (pieces_cp pos Us PAWN) s"
  shows "bit (passedPawns (fst (pawn_evaluate ct pos e Us)) Us) s \<longleftrightarrow>
     (\<forall>t. bit (pieces_cp pos (flip_color Us) PAWN) t \<longrightarrow> \<not> in_corridor Us s t) \<and>
     (\<forall>t. bit (pieces_cp pos Us PAWN) t \<longrightarrow> \<not> (ahead Us s t \<and> file_of t = file_of s))"
  using assms
  by (simp add: passedPawns_pawn_evaluate passed_iff theirPawns_ok) (simp add: ourPawns_def)

theorem passed_flag_witness:
  "pos_ok pos_doubled \<and> bit (pieces_cp pos_doubled WHITE PAWN) 8 \<and>
   pieces_cp pos_doubled BLACK PAWN = 0 \<and>
   \<not> bit (passedPawns (fst (pawn_evaluate Connected0 pos_doubled entry0 WHITE)) WHITE) 8 \<and>
   \<not> (\<forall>t. bit (pieces_cp pos_doubled WHITE PAWN) t \<longrightarrow> \<not> (ahead WHITE 8 t \<and> file_of t = file_of 8))"
  using passed_flag[of pos_doubled WHITE 8 Connected0 entry0]
  by (simp add: doubled_passed)

section \<open>The entry filler: open and semi-open files\<close>

lemma pawn_on_file_iff:
  "pawn_on_file pos c f \<longleftrightarrow> (\<exists>s. bit (ourPawns pos c) s \<and> file_of s = f)"
  by (auto simp: pawn_on_file_def ourPawns_def word_eq_0_iff bit_and_iff bit_file_bb dest: bit_bb_lt)

lemma bit_FF: "bit (0xFF :: 8 word) n \<longleftrightarrow> n < 8"
proof -
  have "(0xFF :: 8 word) = - 1" by simp
  then show ?thesis by (simp only: bit_minus_1_iff) simp
qed

lemma bit_255_int: "bit (255 :: int) n \<longleftrightarrow> n < 8"
proof -
  have "(255 :: int) = mask 8" by (simp add: mask_eq_exp_minus_1)
  then show ?thesis by (simp only: bit_mask_iff) simp
qed

lemma bit_clear_file: "bit (w AND NOT (push_bit k 1) :: 8 word) n \<longleftrightarrow> bit w n \<and> n \<noteq> k"
proof -
  have a: "bit (2 ^ k :: 8 word) n \<longleftrightarrow> n < 8 \<and> n = k"
    by (auto simp: bit_exp_iff possible_bit_word)
  have b: "bit w n \<Longrightarrow> n < 8"
    using bit_imp_le_length[of w n] by simp
  show ?thesis
    using b by (auto simp: bit_and_iff bit_not_iff a possible_bit_word)
qed

lemma semiopenFiles_fold:
  "bit (semiopenFiles (fst (fold (pawn_step ct pos Us) xs es)) c) f \<longleftrightarrow>
     bit (semiopenFiles (fst es) c) f \<and> (c = Us \<longrightarrow> (\<forall>s \<in> set xs. file_of s \<noteq> f))"
proof (induction xs arbitrary: es)
  case Nil
  then show ?case by simp
next
  case (Cons x xs)
  show ?case
    by (simp only: fold_simps Cons.IH semiopenFiles_pawn_step bit_clear_file split: if_split)
       auto
qed

lemma semiopenFiles_pawn_evaluate:
  "bit (semiopenFiles (fst (pawn_evaluate ct pos e Us)) c) f \<longleftrightarrow>
     (if c = Us then f < 8 \<and> \<not> pawn_on_file pos Us f else bit (semiopenFiles e c) f)"
  by (auto simp: pawn_evaluate_def semiopenFiles_fold set_pawn_squares pawn_reset_def bit_FF
        bit_255_int pawn_on_file_iff)

lemma three_way_count:
  assumes "\<And>x. x \<in> set xs \<Longrightarrow> (P x \<and> \<not> Q x \<and> \<not> R x) \<or> (\<not> P x \<and> Q x \<and> \<not> R x) \<or> (\<not> P x \<and> \<not> Q x \<and> R x)"
  shows "length (filter P xs) + length (filter Q xs) + length (filter R xs) = length xs"
  using assms by (induction xs) auto

lemma fill_semiopen:
  "bit (semiopenFiles (pawn_entry_fill ct pos e k) c) f \<longleftrightarrow> f < 8 \<and> \<not> pawn_on_file pos c f"
  by (cases c) (simp_all add: pawn_entry_fill_def Let_def case_prod_unfold semiopenFiles_pawn_evaluate)

lemma fill_semiopen_word:
  "semiopenFiles (pawn_entry_fill ct pos e k) c =
     horner_sum of_bool 2 (map (\<lambda>f. \<not> pawn_on_file pos c f) [0..<8])"
  by (rule bit_word_eqI) (auto simp: fill_semiopen bit_horner_sum_bit_word_iff)

lemma fill_asymmetry:
  "asymmetry (pawn_entry_fill ct pos e k) =
     popcount (semiopenFiles (pawn_entry_fill ct pos e k) WHITE
               XOR semiopenFiles (pawn_entry_fill ct pos e k) BLACK)"
  by (simp add: pawn_entry_fill_def Let_def case_prod_unfold)

lemma fill_openFiles:
  "openFiles (pawn_entry_fill ct pos e k) =
     popcount (semiopenFiles (pawn_entry_fill ct pos e k) WHITE
               AND semiopenFiles (pawn_entry_fill ct pos e k) BLACK)"
  by (simp add: pawn_entry_fill_def Let_def case_prod_unfold)

lemma doubled_fill:
  "asymmetry (pawn_entry_fill Connected0 pos_doubled entry0 0) = 1"
  "openFiles (pawn_entry_fill Connected0 pos_doubled entry0 0) = 7"
  "files_with_both pos_doubled = 0"
  by (simp_all add: fill_asymmetry fill_openFiles fill_semiopen_word files_with_both_def
        pawn_on_file_def pos_doubled_def pieces_cp_def PAWN_def mask_defs popcount_def)

text \<open>Claim C2, as stated: asymmetry plus twice openFiles plus the number of files with a
  pawn of both sides is 8. It fails for \<^const>\<open>pos_doubled\<close> (white pawns on the a-file
  only): asymmetry is 1, seven files are open, no file has pawns of both sides, and the
  sum is 15.\<close>

theorem asymmetry_twice_openFiles_counterexample:
  "asymmetry (pawn_entry_fill Connected0 pos_doubled entry0 0)
     + 2 * openFiles (pawn_entry_fill Connected0 pos_doubled entry0 0)
     + files_with_both pos_doubled = 15"
  by (simp add: doubled_fill)


text \<open>Claim C2, amended: for every filled entry, asymmetry plus openFiles (counted once)
  plus the number of files holding a pawn of both sides is 8: each file is semi-open for
  exactly one side, or open for both, or holds pawns of both.\<close>

theorem asymmetry_openFiles_sum:
  "asymmetry (pawn_entry_fill ct pos e k) + openFiles (pawn_entry_fill ct pos e k)
     + files_with_both pos = 8"
proof -
  let ?w = "semiopenFiles (pawn_entry_fill ct pos e k) WHITE"
  let ?b = "semiopenFiles (pawn_entry_fill ct pos e k) BLACK"
  have "length (filter (bit (?w XOR ?b)) [0..<8]) + length (filter (bit (?w AND ?b)) [0..<8])
        + length (filter (\<lambda>f. pawn_on_file pos WHITE f \<and> pawn_on_file pos BLACK f) [0..<8])
        = length [0..<8]"
    by (rule three_way_count) (auto simp: bit_xor_iff bit_and_iff fill_semiopen)
  then show ?thesis
    by (simp add: fill_asymmetry fill_openFiles popcount_def files_with_both_def)
qed


theorem asymmetry_openFiles_sum_witness:
  "asymmetry (pawn_entry_fill Connected0 pos_doubled entry0 0) = 1 \<and>
   openFiles (pawn_entry_fill Connected0 pos_doubled entry0 0) = 7 \<and>
   asymmetry (pawn_entry_fill Connected0 pos_doubled entry0 0)
     + openFiles (pawn_entry_fill Connected0 pos_doubled entry0 0)
     + files_with_both pos_doubled = 8"
  using asymmetry_openFiles_sum[of Connected0 pos_doubled entry0 0]
  by (simp add: doubled_fill)

section \<open>Backward pawns\<close>

lemma set_squares_of: "set (squares_of b) = {t. bit b t}"
  by (auto simp: squares_of_def dest: bit_bb_lt)

lemma list_ex_squares_of: "list_ex P (squares_of b) \<longleftrightarrow> (\<exists>t. bit b t \<and> P t)"
  by (auto simp: list_ex_iff set_squares_of)

lemma lsb_props:
  assumes "b \<noteq> 0"
  shows "bit b (lsb b)" and "bit b m \<Longrightarrow> lsb b \<le> m"
proof -
  obtain k where k: "bit b k" using assms by (auto simp: word_eq_0_iff)
  then have "k < 64" by (rule bit_bb_lt)
  with k have "List.find (bit b) [0..<64] \<noteq> None"
    by (auto simp: find_None_iff)
  then obtain n where n: "List.find (bit b) [0..<64] = Some n" by auto
  then obtain i where i: "i < 64" "bit b ([0..<64] ! i)" "n = [0..<64] ! i"
      "\<forall>j<i. \<not> bit b ([0..<64] ! j)"
    by (auto simp: find_Some_iff)
  have l: "lsb b = n" using n by (simp add: lsb_def)
  from i have ni: "n = i" by simp
  show "bit b (lsb b)" using i l by simp
  show "lsb b \<le> m" if "bit b m"
  proof (rule ccontr)
    assume "\<not> lsb b \<le> m"
    then have "m < i" using l ni by simp
    with i(4) i(1) have "\<not> bit b m" by auto
    with that show False by simp
  qed
qed

lemma msb_props:
  assumes "b \<noteq> 0"
  shows "bit b (msb b)" and "bit b m \<Longrightarrow> m \<le> msb b"
proof -
  obtain k where k: "bit b k" using assms by (auto simp: word_eq_0_iff)
  then have "k < 64" by (rule bit_bb_lt)
  with k have "List.find (bit b) (rev [0..<64]) \<noteq> None"
    by (auto simp: find_None_iff)
  then obtain n where n: "List.find (bit b) (rev [0..<64]) = Some n" by auto
  then obtain i where i: "i < 64" "bit b (rev [0..<64] ! i)" "n = rev [0..<64] ! i"
      "\<forall>j<i. \<not> bit b (rev [0..<64] ! j)"
    by (auto simp: find_Some_iff)
  have l: "msb b = n" using n by (simp add: msb_def)
  from i have ni: "n = 63 - i" by (simp add: rev_nth)
  show "bit b (msb b)" using i l by simp
  show "m \<le> msb b" if "bit b m"
  proof (rule ccontr)
    assume a: "\<not> m \<le> msb b"
    have m: "m < 64" using that by (rule bit_bb_lt)
    from a have "63 - m < i" using l ni m i(1) by simp
    with i(4) have "\<not> bit b (rev [0..<64] ! (63 - m))" by blast
    moreover have "rev [0..<64] ! (63 - m) = m" using m by (simp add: rev_nth)
    ultimately show False using that by simp
  qed
qed

lemma rank_of_mono: "m \<le> n \<Longrightarrow> rank_of m \<le> rank_of n"
  by (simp add: rank_of_def div_le_mono)

lemma rank_backmost_sq:
  assumes "b \<noteq> 0"
  shows "rank_of (backmost_sq Us b) = backmost_rank Us b"
proof (cases Us)
  case WHITE
  have "Min (rank_of ` {t. bit b t}) = rank_of (lsb b)"
  proof (rule Min_eqI)
    have "{t. bit b t} \<subseteq> {..<64}" by (auto dest: bit_bb_lt)
    then show "finite (rank_of ` {t. bit b t})" by (simp add: finite_subset)
  qed (use lsb_props[OF assms] in \<open>auto intro: rank_of_mono\<close>)
  with WHITE show ?thesis by (simp add: backmost_sq_def backmost_rank_def set_squares_of)
next
  case BLACK
  have "Max (rank_of ` {t. bit b t}) = rank_of (msb b)"
  proof (rule Max_eqI)
    have "{t. bit b t} \<subseteq> {..<64}" by (auto dest: bit_bb_lt)
    then show "finite (rank_of ` {t. bit b t})" by (simp add: finite_subset)
  qed (use msb_props[OF assms] in \<open>auto intro: rank_of_mono\<close>)
  with BLACK show ?thesis by (simp add: backmost_sq_def backmost_rank_def set_squares_of)
qed

lemma backmost_sq_lt: "b \<noteq> 0 \<Longrightarrow> backmost_sq Us b < 64"
  using lsb_props(1)[of b] msb_props(1)[of b] by (cases Us) (auto simp: backmost_sq_def dest: bit_bb_lt)

lemma bit_shift_up:
  assumes "r < 8"
  shows "bit (shift_bb (Up Us) (rank_bb r AND adjacent_files_bb f)) t \<longleftrightarrow>
         t < 64 \<and> step_forward Us r (rank_of t) \<and> (file_of t + 1 = f \<or> file_of t = f + 1)"
proof (cases Us)
  case WHITE
  have "bit (push_bit 8 (rank_bb r AND adjacent_files_bb f)) t \<longleftrightarrow>
          t < 64 \<and> rank_of t = r + 1 \<and> (file_of t + 1 = f \<or> file_of t = f + 1)"
    by (auto simp: bit_push_bit_iff bit_and_iff bit_rank_bb bit_adjacent_files_bb
          rank_of_def file_of_def le_mod_geq le_div_geq)
  with WHITE show ?thesis
    by (simp add: shift_bb_def Up_def step_forward_def)
next
  case BLACK
  have "bit (drop_bit 8 (rank_bb r AND adjacent_files_bb f)) t \<longleftrightarrow>
          t < 64 \<and> rank_of t + 1 = r \<and> (file_of t + 1 = f \<or> file_of t = f + 1)"
    using assms
    by (auto simp: bit_drop_bit_eq bit_and_iff bit_rank_bb bit_adjacent_files_bb
          rank_of_def file_of_def)
  with BLACK show ?thesis
    by (simp add: shift_bb_def Up_def step_forward_def DELTA_N_def DELTA_S_def)
qed

lemmas cond_defs = claimed_backward_cond_def blocked_advance_cond_def backmost_rank_def
  squares_of_def step_forward_def adjacent_file_def Let_def

lemma backward_flags:
  "neighbours pos_backward WHITE 12 = 0x08000000"
  "lever pos_backward WHITE 12 = False"
  "relative_rank_s WHITE 12 = 1"
  "stoppers pos_backward WHITE 12 = 0x20000000"
  "backward pos_backward WHITE 12 = True"
  by (simp_all add: pos_backward_def flag_defs mask_defs)

lemma backward_conds:
  "claimed_backward_cond pos_backward WHITE 12 = False"
  "blocked_advance_cond pos_backward WHITE 12 = True"
  by (simp_all add: backward_flags cond_defs upt_eval file_of_def rank_of_def)

text \<open>Claim C4, as stated: a pawn that has neighbours, no lever and stands below its fifth
  relative rank is backward exactly when an enemy stopper stands on the backmost rank of
  (neighbours, stoppers) on the pawn's own file, or on an adjacent file one step further
  forward. It fails for the white e2 pawn of \<^const>\<open>pos_backward\<close>: the backmost rank is
  the fourth, the only stopper is f4, on that rank on an adjacent file, and the pawn is
  backward.\<close>

theorem backward_own_file_counterexample:
  "neighbours pos_backward WHITE 12 \<noteq> 0 \<and> \<not> lever pos_backward WHITE 12 \<and>
   relative_rank_s WHITE 12 < RANK_5 \<and>
   backward pos_backward WHITE 12 \<and> \<not> claimed_backward_cond pos_backward WHITE 12"
  by (simp add: backward_flags backward_conds RANK_5_def)

text \<open>Claim C4, amended: a pawn with no neighbours, or with a lever, or on its fifth
  relative rank or beyond, is never backward; otherwise, with \<open>r\<close> the rank closest to the
  pawn's own back rank among (neighbours, stoppers), the pawn is backward exactly when an
  enemy stopper stands on rank \<open>r\<close> (on the pawn's own file or on an adjacent file), or on
  an adjacent file one step further forward than \<open>r\<close>.\<close>

theorem backward_iff:
  "backward pos Us s \<longleftrightarrow>
     neighbours pos Us s \<noteq> 0 \<and> \<not> lever pos Us s \<and> relative_rank_s Us s < RANK_5 \<and>
     blocked_advance_cond pos Us s"
proof (cases "neighbours pos Us s = 0 \<or> lever pos Us s \<or> RANK_5 \<le> relative_rank_s Us s")
  case True
  then show ?thesis by (auto simp: backward_def)
next
  case False
  let ?B = "neighbours pos Us s OR stoppers pos Us s"
  let ?r = "backmost_rank Us ?B"
  from False have ne: "?B \<noteq> 0" by (simp add: or_eq_0_iff)
  have r: "rank_of (backmost_sq Us ?B) = ?r" by (rule rank_backmost_sq[OF ne])
  have "rank_of (backmost_sq Us ?B) < 8"
    using backmost_sq_lt[OF ne, of Us] by (simp add: rank_of_def)
  then have r8: "?r < 8" by (simp add: r)
  have "backward pos Us s \<longleftrightarrow>
          (rank_bb ?r OR shift_bb (Up Us) (rank_bb ?r AND adjacent_files_bb (file_of s)))
            AND stoppers pos Us s \<noteq> 0"
    using False by (simp add: backward_def rank_bb_s_def r Let_def)
  also have "\<dots> \<longleftrightarrow> (\<exists>t. bit (stoppers pos Us s) t \<and>
                 (rank_of t = ?r \<or> (adjacent_file s t \<and> step_forward Us ?r (rank_of t))))"
    by (auto simp: word_eq_0_iff bit_and_iff bit_or_iff bit_rank_bb bit_shift_up[OF r8]
          adjacent_file_def dest: bit_bb_lt)
  also have "\<dots> \<longleftrightarrow> blocked_advance_cond pos Us s"
    by (simp add: blocked_advance_cond_def list_ex_squares_of Let_def)
  finally show ?thesis using False by auto
qed

theorem backward_iff_witness:
  "neighbours pos_backward WHITE 12 \<noteq> 0 \<and> \<not> lever pos_backward WHITE 12 \<and>
   relative_rank_s WHITE 12 < RANK_5 \<and> blocked_advance_cond pos_backward WHITE 12 \<and>
   backward pos_backward WHITE 12"
  using backward_iff[of pos_backward WHITE 12]
  by (simp add: backward_flags(1-4) backward_conds RANK_5_def)


section \<open>Shelter and storm\<close>

lemma bit_king_zone:
  "bit (in_front_bb Us (rank_of ksq) OR rank_bb_s ksq) t \<longleftrightarrow> t < 64 \<and> at_or_ahead Us ksq t"
  by (auto simp: bit_or_iff bit_in_front_bb rank_bb_s_def bit_rank_bb at_or_ahead_def ahead_def
        split: Color.splits)

lemma bit_shelter_ourPawns:
  "bit (shelter_ourPawns pos ksq Us) t \<longleftrightarrow> bit (pieces_cp pos Us PAWN) t \<and> at_or_ahead Us ksq t"
  by (auto simp: shelter_ourPawns_def pieces_cp_def pieces_p_def pieces_c_def bit_and_iff
        bit_king_zone dest: bit_bb_lt)

lemma bit_shelter_theirPawns:
  "bit (shelter_theirPawns pos ksq Us) t \<longleftrightarrow>
     bit (pieces_cp pos (flip_color Us) PAWN) t \<and> at_or_ahead Us ksq t"
  by (auto simp: shelter_theirPawns_def pieces_cp_def pieces_p_def pieces_c_def bit_and_iff
        bit_king_zone dest: bit_bb_lt)

lemma shelter_storm_cong:
  assumes "shelter_ourPawns p1 ksq Us = shelter_ourPawns p2 ksq Us"
    and "shelter_theirPawns p1 ksq Us = shelter_theirPawns p2 ksq Us"
  shows "shelter_storm p1 ksq Us = shelter_storm p2 ksq Us"
proof -
  have "rkUs p1 ksq Us = rkUs p2 ksq Us" "rkThem p1 ksq Us = rkThem p2 ksq Us"
    using assms by (auto simp: rkUs_def rkThem_def fun_eq_iff)
  then have "shelter_file p1 ksq Us = shelter_file p2 ksq Us"
    by (simp add: shelter_file_def block_state_def fun_eq_iff)
  then show ?thesis by (simp add: shelter_storm_def)
qed

lemma agree_in_front_iff:
  "(\<forall>t. at_or_ahead Us ksq t \<longrightarrow> bit (a :: Bitboard) t = bit b t) \<longleftrightarrow>
     a AND (in_front_bb Us (rank_of ksq) OR rank_bb_s ksq)
       = b AND (in_front_bb Us (rank_of ksq) OR rank_bb_s ksq)"
proof
  assume "\<forall>t. at_or_ahead Us ksq t \<longrightarrow> bit a t = bit b t"
  then show "a AND (in_front_bb Us (rank_of ksq) OR rank_bb_s ksq)
       = b AND (in_front_bb Us (rank_of ksq) OR rank_bb_s ksq)"
    by (intro bit_word_eqI) (auto simp: bit_and_iff bit_king_zone)
next
  assume e: "a AND (in_front_bb Us (rank_of ksq) OR rank_bb_s ksq)
       = b AND (in_front_bb Us (rank_of ksq) OR rank_bb_s ksq)"
  show "\<forall>t. at_or_ahead Us ksq t \<longrightarrow> bit a t = bit b t"
  proof (intro allI impI)
    fix t assume t: "at_or_ahead Us ksq t"
    show "bit a t = bit b t"
    proof (cases "t < 64")
      case True
      have "bit (a AND (in_front_bb Us (rank_of ksq) OR rank_bb_s ksq)) t
          = bit (b AND (in_front_bb Us (rank_of ksq) OR rank_bb_s ksq)) t"
        by (simp only: e)
      with True t show ?thesis by (simp add: bit_and_iff bit_king_zone)
    next
      case False
      then show ?thesis by (auto dest: bit_bb_lt)
    qed
  qed
qed

lemma backmost_sq_bit: "b \<noteq> 0 \<Longrightarrow> bit b (backmost_sq Us b)"
  using lsb_props(1)[of b] msb_props(1)[of b] by (cases Us) (auto simp: backmost_sq_def)

lemma frontmost_sq_bit: "b \<noteq> 0 \<Longrightarrow> bit b (frontmost_sq Us b)"
  using lsb_props(1)[of b] msb_props(1)[of b] by (cases Us) (auto simp: frontmost_sq_def)

lemma nat_xor_eq_0: "(a :: nat) XOR b = 0 \<longleftrightarrow> a = b"
  by (auto simp: bit_eq_iff bit_xor_iff)

lemma relative_rank_eq_0: "relative_rank Us r = 0 \<longleftrightarrow> r = color_idx Us * 7"
  by (simp add: relative_rank_def nat_xor_eq_0)

lemma rkUs_RANK_1_iff:
  assumes "pawns_on_board pos"
  shows "rkUs pos ksq Us f = RANK_1 \<longleftrightarrow> \<not> own_pawn_ahead_on_file pos ksq Us f"
proof (cases "shelter_ourPawns pos ksq Us AND file_bb f = 0")
  case True
  then show ?thesis by (simp add: rkUs_def own_pawn_ahead_on_file_def)
next
  case False
  let ?b = "shelter_ourPawns pos ksq Us AND file_bb f"
  have "bit ?b (backmost_sq Us ?b)" using False by (rule backmost_sq_bit)
  then have p: "bit (pieces_p pos PAWN) (backmost_sq Us ?b)"
    by (simp add: bit_and_iff shelter_ourPawns_def)
  have "\<not> bit (pieces_p pos PAWN AND (rank_bb RANK_1 OR rank_bb RANK_8)) (backmost_sq Us ?b)"
    using assms by (simp add: pawns_on_board_def)
  with p have "rank_of (backmost_sq Us ?b) \<noteq> 0 \<and> rank_of (backmost_sq Us ?b) \<noteq> 7"
    by (auto simp: bit_and_iff bit_or_iff bit_rank_bb RANK_1_def RANK_8_def dest: bit_bb_lt)
  then have "relative_rank_s Us (backmost_sq Us ?b) \<noteq> 0"
    by (cases Us) (simp_all add: relative_rank_s_def relative_rank_eq_0)
  with False show ?thesis by (simp add: rkUs_def own_pawn_ahead_on_file_def RANK_1_def)
qed

lemma block_state_spec:
  assumes "pawns_on_board pos"
  shows "block_state pos ksq Us f = spec_block_state pos ksq Us f"
  by (simp only: block_state_def spec_block_state_def rkUs_RANK_1_iff[OF assms] Let_def)

lemma shelter_file_spec:
  assumes "pawns_on_board pos"
  shows "shelter_file pos ksq Us f safety = safety - spec_file_penalty pos ksq Us f"
  by (simp only: shelter_file_def spec_file_penalty_def edge_distance_def Let_def
        block_state_spec[OF assms])

lemma three_files:
  assumes "1 \<le> c"
  shows "[c - 1 ..< c + 2] = [c - 1, c, c + 1]"
proof -
  obtain k where k: "c = Suc k" using assms by (cases c) auto
  have "[k ..< Suc (Suc (Suc k))] = [k, Suc k, Suc (Suc k)]"
    by (simp add: upt_conv_Cons)
  then show ?thesis by (simp add: k)
qed

lemma shelter_storm_spec:
  assumes ok: "pawns_on_board pos"
  shows "shelter_storm pos ksq Us = spec_shelter_storm pos ksq Us"
proof -
  let ?c = "max FILE_B (min FILE_G (file_of ksq))"
  have c: "1 \<le> ?c" by (simp add: FILE_B_def)
  have "shelter_storm pos ksq Us
          = fold (shelter_file pos ksq Us) [?c - 1, ?c, ?c + 1] MaxSafetyBonus"
    by (simp only: shelter_storm_def Let_def three_files[OF c])
  also have "\<dots> = MaxSafetyBonus
                 - sum_list (map (spec_file_penalty pos ksq Us) [?c - 1, ?c, ?c + 1])"
    by (simp add: shelter_file_spec[OF ok])
  also have "\<dots> = spec_shelter_storm pos ksq Us"
    by (simp only: spec_shelter_storm_def spec_files_def Let_def)
  finally show ?thesis .
qed

lemmas shelter_defs = shelter_storm_def shelter_file_def block_state_def rkUs_def rkThem_def
  shelter_ourPawns_def shelter_theirPawns_def FILE_B_def FILE_G_def FILE_H_def RANK_1_def
  ShelterWeakness_def StormDanger_def MaxSafetyBonus_def Let_def

lemma shelter_empty:
  "pawns_on_board pos_empty"
  "shelter_storm pos_empty 4 WHITE = - 3"
  by (simp_all add: pawns_on_board_def pos_empty_def shelter_defs flag_defs mask_defs)

lemma shelter_a:
  "pawns_on_board pos_shelter_a"
  "shelter_storm pos_shelter_a 22 WHITE = - 82"
  "pieces_cp pos_shelter_a WHITE PAWN = 0x2000E000"
  "pieces_cp pos_shelter_b WHITE PAWN = 0x20000000"
  "block_state pos_shelter_a 22 WHITE 6 = NoFriendlyPawn"
  "pawn_on_file pos_shelter_a WHITE 6"
  "claimed_block_state pos_shelter_a 22 WHITE 6 = Unblocked"
  by (simp_all add: pawns_on_board_def pos_shelter_a_def pos_shelter_b_def shelter_defs
        claimed_block_state_def pawn_on_file_def flag_defs mask_defs RANK_8_def)

lemma shelter_agree:
  "pieces_cp pos_shelter_a c PAWN AND (in_front_bb WHITE (rank_of 22) OR rank_bb_s 22)
     = pieces_cp pos_shelter_b c PAWN AND (in_front_bb WHITE (rank_of 22) OR rank_bb_s 22)"
  by (cases c) (simp_all add: pos_shelter_a_def pos_shelter_b_def flag_defs mask_defs)

text \<open>Claim C6, as stated: a file is classified NoFriendlyPawn when no own pawn stands on
  the file. It fails on the g-file of \<^const>\<open>pos_shelter_a\<close> for the white king on g3: the
  own pawn on g2 stands on the file, behind the king, and the file is classified
  NoFriendlyPawn, where the wording read over the whole file gives Unblocked.\<close>

theorem no_friendly_pawn_counterexample:
  "pawn_on_file pos_shelter_a WHITE 6 \<and>
   block_state pos_shelter_a 22 WHITE 6 = NoFriendlyPawn \<and>
   claimed_block_state pos_shelter_a 22 WHITE 6 \<noteq> block_state pos_shelter_a 22 WHITE 6"
  by (simp add: shelter_a)

text \<open>Claim C6, amended: with the pawns of a position on ranks 2 to 7, \<open>shelter_storm\<close>
  examines exactly the three files centred on the king's file clamped into [FILE_B, FILE_G],
  looking only at the pawns on the king's rank or ahead of it; it classifies each file by
  the first matching case in the order BlockedByKing (king's own file, enemy pawn exactly
  one rank ahead of the king), NoFriendlyPawn (no own pawn on the file on the king's rank or
  ahead of it), BlockedByPawn (enemy pawn exactly one rank ahead of the own pawn), else
  Unblocked, and returns the maximum safety constant minus the sum over the three files of
  \<open>ShelterWeakness[edge distance][rkUs] + StormDanger[block state][edge distance][rkThem]\<close>;
  the total can be negative.\<close>

theorem shelter_storm_structure:
  assumes "pawns_on_board pos"
  shows "block_state pos ksq Us f = spec_block_state pos ksq Us f
       \<and> shelter_storm pos ksq Us = spec_shelter_storm pos ksq Us
       \<and> (\<exists>pos' ksq' Us'. pawns_on_board pos' \<and> shelter_storm pos' ksq' Us' < 0)"
proof (intro conjI)
  show "\<exists>pos' ksq' Us'. pawns_on_board pos' \<and> shelter_storm pos' ksq' Us' < 0"
    using shelter_empty by (intro exI[of _ pos_empty] exI[of _ 4] exI[of _ WHITE]) simp
qed (simp_all only: block_state_spec[OF assms] shelter_storm_spec[OF assms])

theorem shelter_storm_structure_witness:
  "pawns_on_board pos_shelter_a \<and>
   spec_block_state pos_shelter_a 22 WHITE 6 = NoFriendlyPawn \<and>
   spec_shelter_storm pos_shelter_a 22 WHITE = - 82"
  using shelter_storm_structure[of pos_shelter_a 22 WHITE 6]
  by (simp add: shelter_a)

text \<open>Claim C9. Two positions whose pawns of both colours agree on every square on the
  king's rank or ahead of it (from the side's point of view) have the same shelter/storm
  value for that king square and side.\<close>

theorem shelter_storm_front_only:
  assumes "\<forall>c t. at_or_ahead Us ksq t \<longrightarrow>
             bit (pieces_cp p1 c PAWN) t = bit (pieces_cp p2 c PAWN) t"
  shows "shelter_storm p1 ksq Us = shelter_storm p2 ksq Us"
proof (rule shelter_storm_cong)
  show "shelter_ourPawns p1 ksq Us = shelter_ourPawns p2 ksq Us"
    using assms by (intro bit_word_eqI) (auto simp: bit_shelter_ourPawns)
  show "shelter_theirPawns p1 ksq Us = shelter_theirPawns p2 ksq Us"
    using assms by (intro bit_word_eqI) (auto simp: bit_shelter_theirPawns)
qed

theorem shelter_storm_front_only_witness:
  "pieces_cp pos_shelter_a WHITE PAWN \<noteq> pieces_cp pos_shelter_b WHITE PAWN \<and>
   shelter_storm pos_shelter_a 22 WHITE = shelter_storm pos_shelter_b 22 WHITE"
proof -
  have "\<forall>c t. at_or_ahead WHITE 22 t \<longrightarrow>
          bit (pieces_cp pos_shelter_a c PAWN) t = bit (pieces_cp pos_shelter_b c PAWN) t"
    using shelter_agree by (simp add: agree_in_front_iff)
  then show ?thesis
    using shelter_storm_front_only[of WHITE 22 pos_shelter_a pos_shelter_b]
    by (simp add: shelter_a)
qed


section \<open>King safety\<close>

lemma bit_DistanceRingBB:
  "bit (DistanceRingBB s d) t \<longleftrightarrow> t < 64 \<and> distance s t = d + 1"
  by (simp add: DistanceRingBB_def bit_bb_of)

lemma distance_le_7:
  assumes "s < 64" "t < 64"
  shows "distance s t \<le> 7"
proof -
  have "file_of s < 8" "file_of t < 8" by (simp_all add: file_of_def)
  moreover have "rank_of s < 8" "rank_of t < 8" using assms by (simp_all add: rank_of_def)
  ultimately show ?thesis unfolding distance_def by (intro max.boundedI) linarith+
qed

lemma distance_eq_0: "distance s t = 0 \<longleftrightarrow> s = t"
proof
  assume "distance s t = 0"
  then have "s mod 8 = t mod 8" "s div 8 = t div 8"
    by (simp_all add: distance_def file_of_def rank_of_def)
  then show "s = t" by (metis div_mult_mod_eq)
qed (simp add: distance_def)

lemma ring_hit_iff:
  "DistanceRingBB ksq d AND pawns \<noteq> 0 \<longleftrightarrow> (\<exists>t. bit pawns t \<and> distance ksq t = d + 1)"
  by (auto simp: word_eq_0_iff bit_and_iff bit_DistanceRingBB dest: bit_bb_lt)

lemma nearest_pawn_distance_props:
  assumes "pawns \<noteq> 0"
  shows "\<exists>t. bit pawns t \<and> distance ksq t = nearest_pawn_distance ksq pawns"
    and "bit pawns t \<Longrightarrow> nearest_pawn_distance ksq pawns \<le> distance ksq t"
proof -
  let ?D = "distance ksq ` {t. bit pawns t}"
  have fin: "finite ?D"
  proof -
    have "{t. bit pawns t} \<subseteq> {..<64}" by (auto dest: bit_bb_lt)
    then show ?thesis by (simp add: finite_subset)
  qed
  have ne: "?D \<noteq> {}" using assms by (auto simp: word_eq_0_iff)
  have eq: "nearest_pawn_distance ksq pawns = Min ?D"
    by (simp add: nearest_pawn_distance_def set_squares_of)
  have "Min ?D \<in> ?D" using fin ne by (rule Min_in)
  then show "\<exists>t. bit pawns t \<and> distance ksq t = nearest_pawn_distance ksq pawns"
    by (auto simp: eq)
  show "nearest_pawn_distance ksq pawns \<le> distance ksq t" if "bit pawns t"
    using that fin by (simp add: eq)
qed

lemma ring_scan_nearest:
  assumes "pawns \<noteq> 0"
    and "d < nearest_pawn_distance ksq pawns"
    and "nearest_pawn_distance ksq pawns \<le> 7"
  shows "ring_scan ksq pawns d = Some (nearest_pawn_distance ksq pawns)"
  using assms
proof (induction ksq pawns d rule: ring_scan.induct)
  case (1 ksq pawns d)
  let ?m = "nearest_pawn_distance ksq pawns"
  from "1.prems" have d8: "\<not> 8 \<le> d" by simp
  show ?case
  proof (cases "DistanceRingBB ksq d AND pawns \<noteq> 0")
    case True
    then obtain t where t: "bit pawns t" "distance ksq t = d + 1"
      by (auto simp: ring_hit_iff)
    then have "?m \<le> d + 1"
      using nearest_pawn_distance_props(2)[OF "1.prems"(1), of t ksq] by simp
    with "1.prems"(2) have "?m = d + 1" by simp
    with True d8 show ?thesis by (simp add: ring_scan.simps[of ksq pawns d])
  next
    case False
    obtain t where t: "bit pawns t" "distance ksq t = ?m"
      using nearest_pawn_distance_props(1)[OF "1.prems"(1), of ksq] by auto
    with False have "?m \<noteq> d + 1" by (auto simp: ring_hit_iff)
    with "1.prems"(2) have lt: "d + 1 < ?m" by simp
    have "ring_scan ksq pawns (d + 1) = Some ?m"
      using d8 False "1.prems"(1) lt "1.prems"(3) by (intro "1.IH") simp_all
    with False d8 show ?thesis by (simp add: ring_scan.simps[of ksq pawns d])
  qed
qed

lemma nearest_pawn_distance_bounds:
  assumes "ksq < 64" "pawns \<noteq> 0" "\<not> bit pawns ksq"
  shows "1 \<le> nearest_pawn_distance ksq pawns" "nearest_pawn_distance ksq pawns \<le> 7"
proof -
  obtain t where t: "bit pawns t" "distance ksq t = nearest_pawn_distance ksq pawns"
    using nearest_pawn_distance_props(1)[OF assms(2), of ksq] by auto
  then have "t \<noteq> ksq" using assms(3) by auto
  then have "distance ksq t \<noteq> 0" by (simp add: distance_eq_0)
  with t show "1 \<le> nearest_pawn_distance ksq pawns" by simp
  have "t < 64" using t(1) by (rule bit_bb_lt)
  then show "nearest_pawn_distance ksq pawns \<le> 7"
    using distance_le_7[OF assms(1), of t] t by simp
qed

lemma ring_scan_from_0:
  assumes "ksq < 64" "pawns \<noteq> 0" "\<not> bit pawns ksq"
  shows "ring_scan ksq pawns 0 = Some (nearest_pawn_distance ksq pawns)"
  using nearest_pawn_distance_bounds[OF assms] assms(2)
  by (intro ring_scan_nearest) simp_all

lemma relative_square_castled:
  "relative_square Us SQ_G1 = castled_square Us KING_SIDE"
  "relative_square Us SQ_C1 = castled_square Us QUEEN_SIDE"
  by (cases Us; simp add: relative_square_def SQ_G1_def SQ_C1_def)+

lemma scan_result:
  assumes "ksq < 64" "\<not> bit (pieces_cp pos Us PAWN) ksq"
  shows "(if pieces_cp pos Us PAWN \<noteq> 0 then ring_scan ksq (pieces_cp pos Us PAWN) 0 else Some 0)
           = Some (king_pawn_distance pos ksq Us)"
  using assms by (simp add: king_pawn_distance_def ring_scan_from_0 del: ring_scan.simps)

lemma do_king_safety_eq:
  assumes "ksq < 64" and "\<not> bit (pieces_cp pos Us PAWN) ksq"
  shows "do_king_safety pe pos ksq Us =
           Some (pe\<lparr>kingSquares := (kingSquares pe)(Us := ksq),
                    castlingRights := (castlingRights pe)(Us := can_castle_c pos Us)\<rparr>,
                 make_score (best_shelter pos ksq Us) (- 16 * int (king_pawn_distance pos ksq Us)))"
proof -
  have "best_shelter pos ksq Us =
          (let bonus = shelter_storm pos ksq Us;
               bonus = (if can_castle_cr pos (make_castling_right Us KING_SIDE) \<noteq> 0
                        then max bonus (shelter_storm pos (relative_square Us SQ_G1) Us)
                        else bonus);
               bonus = (if can_castle_cr pos (make_castling_right Us QUEEN_SIDE) \<noteq> 0
                        then max bonus (shelter_storm pos (relative_square Us SQ_C1) Us)
                        else bonus)
           in bonus)"
    by (simp add: best_shelter_def castling_legal_def relative_square_castled Let_def max.assoc
          max.commute max.left_commute)
  then have b: "best_shelter pos ksq Us =
          (if can_castle_cr pos (make_castling_right Us QUEEN_SIDE) \<noteq> 0
           then max (if can_castle_cr pos (make_castling_right Us KING_SIDE) \<noteq> 0
                     then max (shelter_storm pos ksq Us)
                            (shelter_storm pos (relative_square Us SQ_G1) Us)
                     else shelter_storm pos ksq Us)
                  (shelter_storm pos (relative_square Us SQ_C1) Us)
           else if can_castle_cr pos (make_castling_right Us KING_SIDE) \<noteq> 0
                then max (shelter_storm pos ksq Us)
                       (shelter_storm pos (relative_square Us SQ_G1) Us)
                else shelter_storm pos ksq Us)"
    by (simp only: Let_def)
  show ?thesis
    unfolding do_king_safety_def Let_def scan_result[OF assms] option.case
    by (simp only: b) simp
qed


lemmas king_defs = king_pawn_distance_def nearest_pawn_distance_def squares_of_def distance_def
  best_shelter_def castling_legal_def can_castle_cr_def can_castle_c_def
  make_castling_right_def WHITE_OO_def WHITE_OOO_def

lemma castle_values:
  "pieces_cp pos_castle WHITE PAWN = 0xE700"
  "king_pawn_distance pos_castle 4 WHITE = 1"
  "shelter_storm pos_castle 4 WHITE = 68"
  "shelter_storm pos_castle 6 WHITE = 164"
  "shelter_storm pos_castle 2 WHITE = 125"
  "castling_legal pos_castle WHITE KING_SIDE"
  "castling_legal pos_castle WHITE QUEEN_SIDE"
  "can_castle_c pos_castle WHITE = 3"
  by (simp_all add: pos_castle_def king_defs shelter_defs flag_defs mask_defs)

lemma best_shelter_castle: "best_shelter pos_castle 4 WHITE = 164"
  by (simp add: best_shelter_def castle_values)

text \<open>Claim C5. For a king square of the board that holds no pawn of the side,
  \<open>do_king_safety\<close> returns; the endgame component of its score is -16 times the distance
  from the king to the nearest own pawn (0 without own pawns), the midgame component is
  the maximum of shelter/storm at the king square and at the post-castle squares (g1/c1,
  g8/c8 for Black) whose castling right is still available, and the entry holds the king
  square and the side's castling rights.\<close>

theorem do_king_safety_result:
  assumes "ksq < 64" and "\<not> bit (pieces_cp pos Us PAWN) ksq"
  shows "\<exists>pe' sc. do_king_safety pe pos ksq Us = Some (pe', sc)
           \<and> eg_value sc = - 16 * int (king_pawn_distance pos ksq Us)
           \<and> mg_value sc = best_shelter pos ksq Us
           \<and> kingSquares pe' Us = ksq
           \<and> castlingRights pe' Us = can_castle_c pos Us"
  by (simp add: do_king_safety_eq[OF assms] eg_value_def mg_value_def make_score_def)

theorem do_king_safety_result_witness:
  "(4::nat) < 64 \<and> \<not> bit (pieces_cp pos_castle WHITE PAWN) 4 \<and>
   (\<exists>pe'. do_king_safety entry0 pos_castle 4 WHITE = Some (pe', make_score 164 (- 16))
          \<and> kingSquares pe' WHITE = 4 \<and> castlingRights pe' WHITE = 3)"
  using do_king_safety_result[of 4 pos_castle WHITE entry0]
  by (auto simp: castle_values best_shelter_castle eg_value_def mg_value_def make_score_def)

text \<open>Claim C10. For a king square of the board that holds no pawn of the side: when the
  side has a pawn, the ring scan returns, the last ring index it reads is at most 6 and the
  distance it reports is between 1 and 7; when the side has no pawn, the scan is skipped
  and the reported distance is 0.\<close>

theorem ring_scan_in_bounds:
  assumes "ksq < 64" and "\<not> bit (pieces_cp pos Us PAWN) ksq"
  shows "(pieces_cp pos Us PAWN \<noteq> 0 \<longrightarrow>
            (\<exists>d. ring_scan ksq (pieces_cp pos Us PAWN) 0 = Some d \<and> 1 \<le> d \<and> d - 1 \<le> 6))
       \<and> (pieces_cp pos Us PAWN = 0 \<longrightarrow>
            (\<exists>pe' sc. do_king_safety pe pos ksq Us = Some (pe', sc) \<and> eg_value sc = 0))"
proof (intro conjI impI)
  assume ne: "pieces_cp pos Us PAWN \<noteq> 0"
  show "\<exists>d. ring_scan ksq (pieces_cp pos Us PAWN) 0 = Some d \<and> 1 \<le> d \<and> d - 1 \<le> 6"
    using ring_scan_from_0[OF assms(1) ne assms(2)]
      nearest_pawn_distance_bounds[OF assms(1) ne assms(2)]
    by (intro exI[of _ "nearest_pawn_distance ksq (pieces_cp pos Us PAWN)"]) simp
next
  assume "pieces_cp pos Us PAWN = 0"
  then show "\<exists>pe' sc. do_king_safety pe pos ksq Us = Some (pe', sc) \<and> eg_value sc = 0"
    by (simp add: do_king_safety_eq[OF assms] king_pawn_distance_def eg_value_def make_score_def)
qed

lemma empty_pawns: "pieces_cp pos_empty WHITE PAWN = 0"
  by (simp add: pos_empty_def pieces_cp_def)

theorem ring_scan_in_bounds_witness:
  "(4::nat) < 64 \<and> \<not> bit (pieces_cp pos_castle WHITE PAWN) 4 \<and>
   pieces_cp pos_castle WHITE PAWN \<noteq> 0 \<and>
   (\<exists>d. ring_scan 4 (pieces_cp pos_castle WHITE PAWN) 0 = Some d \<and> 1 \<le> d \<and> d - 1 \<le> 6) \<and>
   \<not> bit (pieces_cp pos_empty WHITE PAWN) 4 \<and> pieces_cp pos_empty WHITE PAWN = 0 \<and>
   (\<exists>pe' sc. do_king_safety entry0 pos_empty 4 WHITE = Some (pe', sc) \<and> eg_value sc = 0)"
  using ring_scan_in_bounds[of 4 pos_castle WHITE entry0]
    ring_scan_in_bounds[of 4 pos_empty WHITE entry0]
  by (simp add: castle_values(1) empty_pawns)

end
